theory Spec2Isabelle
  imports Main
begin

section \<open>Values shared by the helpers\<close>

text \<open>
  A Go \<open>error\<close> is an interface value with an \<open>Error()\<close> method. Two error values with
  the same text are still different values, so an error created outside this package
  carries an identity next to its text; \<open>ErrorString\<close> is the value \<open>fmt.Errorf\<close> builds
  inside \<open>Transact\<close>. A Go result of type \<open>error\<close> is an \<open>error option\<close>: \<open>None\<close> is \<open>nil\<close>.
\<close>

datatype error = Err (ident: nat) (Error: string) | ErrorString (Error: string)

text \<open>
  A table argument (an \<open>interface{}\<close> value): the name of its dynamic type, which is what
  \<open>fmt.Sprintf("%T", table)\<close> prints, and whether that type implements \<open>Migratable\<close>.
\<close>

record table =
  type_name :: string
  migratable :: bool

text \<open>What \<open>db.NewScope(model)\<close> offers to this package.\<close>

record scope =
  TableName :: string
  QuotedTableName :: string
  Quote :: "string \<Rightarrow> string"

text \<open>
  The calls this package makes on the database handle, the transaction handle and the
  \<open>Migratable\<close> hook, and the events it causes: a call together with the error it
  returned, or a log line.
\<close>

datatype call =
    DbAutoMigrate table
  | DbDropTableIfExists table
  | DbExec string
  | DbAddForeignKey table string string string string
  | AfterMigrate table
  | DbBegin
  | TxCommit
  | TxRollback

datatype level = Info | Debug | Crit

datatype logval = S string | E error

datatype event =
    Called call "error option"
  | Logged level "(string \<times> logval) list"
  | ScopeLog string
  | Println "logval list"
  | PrintStack

text \<open>
  The database and the ORM are outside this package. The handle \<open>db\<close> is modelled by the
  scope it builds for a value and by the error it answers to a call, which may depend on
  every call made before and on what each of them answered. A trace lists the events in
  the order they happen; every function below takes the trace so far and returns its
  result with the extended trace.
\<close>

fun calls_of :: "event list \<Rightarrow> (call \<times> error option) list" where
  "calls_of [] = []"
| "calls_of (Called c r # es) = (c, r) # calls_of es"
| "calls_of (_ # es) = calls_of es"

record db =
  NewScope :: "table \<Rightarrow> scope"
  reply :: "(call \<times> error option) list \<Rightarrow> call \<Rightarrow> error option"

type_synonym 'a io = "event list \<Rightarrow> 'a \<times> event list"

definition invoke :: "db \<Rightarrow> call \<Rightarrow> (error option) io" where
  "invoke d c h = (let r = reply d (calls_of h) c in (r, h @ [Called c r]))"

definition Log :: "level \<Rightarrow> (string \<times> logval) list \<Rightarrow> event list \<Rightarrow> event list" where
  "Log lv kvs h = h @ [Logged lv kvs]"

text \<open>
  A \<open>for ... range\<close> loop whose body may leave the function with \<open>return err\<close>: the body
  answers \<open>Some err\<close> to return at once, \<open>None\<close> to go on with the next element.
  \<open>for i := range tables\<close> runs over the indices \<open>[0..<length tables]\<close>; the bodies of
  \<open>Drop\<close> and \<open>Truncate\<close> start with \<open>table := tables[len-i-1]\<close>, and the \<open>_body\<close>
  definitions below are what follows that line.
\<close>

fun for_range :: "'a list \<Rightarrow> ('a \<Rightarrow> (error option) io) \<Rightarrow> (error option) io" where
  "for_range [] body h = (None, h)"
| "for_range (x # xs) body h =
     (case body x h of
        (Some err, h') \<Rightarrow> (Some err, h')
      | (None, h') \<Rightarrow> for_range xs body h')"

section \<open>migrate.go\<close>

definition AutoMigrate_body :: "db \<Rightarrow> table \<Rightarrow> (error option) io" where
  "AutoMigrate_body d table h =
     (let name = type_name table;
          h1 = Log Debug [(''msg'', S (''auto-migrating '' @ type_name table)),
                          (''table'', S name)] h
      in case invoke d (DbAutoMigrate table) h1 of
           (Some err, h2) \<Rightarrow>
             (Some err,
              Log Crit [(''during'', S ''db/migrate.AutoMigrate''), (''err'', E err),
                        (''msg'', S (''error during auto migration: '' @ Error err))] h2)
         | (None, h2) \<Rightarrow>
             if migratable table then
               (let h3 = Log Debug [(''table'', S name),
                             (''msg'', S (''executing AfterMigrate for '' @ type_name table))] h2
                in case invoke d (AfterMigrate table) h3 of
                     (Some err, h4) \<Rightarrow>
                       (Some err,
                        Log Crit [(''during'', S ''migratable.AfterMigrate''), (''err'', E err),
                                  (''msg'', S (''error during migratable callbacks: '' @ Error err))] h4)
                   | (None, h4) \<Rightarrow> (None, h4))
             else (None, h2))"

definition AutoMigrate :: "db \<Rightarrow> table list \<Rightarrow> (error option) io" where
  "AutoMigrate d tables h =
     (let h0 = Log Info [(''msg'', S ''running db auto-migration...'')] h
      in case for_range tables (AutoMigrate_body d) h0 of
           (Some err, h') \<Rightarrow> (Some err, h')
         | (None, h') \<Rightarrow> (None, Log Info [(''msg'', S ''db auto-migration done.'')] h'))"

definition Drop_body :: "db \<Rightarrow> table \<Rightarrow> (error option) io" where
  "Drop_body d table h =
     (let h1 = Log Debug [(''msg'', S (''drop table '' @ type_name table)),
                          (''table'', S (type_name table))] h
      in case invoke d (DbDropTableIfExists table) h1 of
           (Some err, h2) \<Rightarrow>
             (Some err,
              Log Crit [(''during'', S ''db.DropTableIfExists''), (''err'', E err),
                        (''msg'', S (''error drop table: '' @ Error err))] h2)
         | (None, h2) \<Rightarrow> (None, h2))"

definition Drop :: "db \<Rightarrow> table list \<Rightarrow> (error option) io" where
  "Drop d tables h =
     (let h0 = Log Info [(''msg'', S ''running db drop'')] h;
          len = length tables
      in case for_range [0..<length tables]
                (\<lambda>i. Drop_body d (tables ! (len - i - 1))) h0 of
           (Some err, h') \<Rightarrow> (Some err, h')
         | (None, h') \<Rightarrow> (None, Log Info [(''msg'', S ''db drop complete'')] h'))"

definition Truncate_body :: "db \<Rightarrow> table \<Rightarrow> (error option) io" where
  "Truncate_body d table h =
     (let h1 = Log Debug [(''msg'', S (''truncate table '' @ type_name table)),
                          (''table'', S (type_name table))] h
      in case invoke d (DbExec (''TRUNCATE TABLE '' @ QuotedTableName (NewScope d table))) h1 of
           (Some err, h2) \<Rightarrow>
             (Some err,
              Log Crit [(''during'', S ''Truncate''), (''err'', E err),
                        (''msg'', S (''error truncate table: '' @ Error err))] h2)
         | (None, h2) \<Rightarrow> (None, h2))"

definition Truncate :: "db \<Rightarrow> table list \<Rightarrow> (error option) io" where
  "Truncate d tables h =
     (let h0 = Log Info [(''msg'', S ''running db truncate'')] h;
          len = length tables
      in case for_range [0..<length tables]
                (\<lambda>i. Truncate_body d (tables ! (len - i - 1))) h0 of
           (Some err, h') \<Rightarrow> (Some err, h')
         | (None, h') \<Rightarrow> (None, Log Info [(''msg'', S ''db truncate complete'')] h'))"

definition ResetDB :: "db \<Rightarrow> table list \<Rightarrow> (error option) io" where
  "ResetDB d tables h =
     (case Drop d tables h of
        (Some err, h') \<Rightarrow> (Some err, h')
      | (None, h') \<Rightarrow> AutoMigrate d tables h')"

section \<open>The second migration file (src/unnamed/part\_000)\<close>

text \<open>
  This file declares \<open>Migratable\<close> and \<open>AutoMigrate\<close> word for word as migrate.go does,
  has no \<open>Drop\<close>, and has its own \<open>Truncate\<close> and \<open>ResetDB\<close>.
\<close>

definition Truncate_part000_body :: "db \<Rightarrow> table \<Rightarrow> (error option) io" where
  "Truncate_part000_body d table h =
     (let h1 = Log Debug [(''msg'', S (''truncating '' @ type_name table)),
                          (''table'', S (type_name table))] h
      in case invoke d (DbDropTableIfExists table) h1 of
           (Some err, h2) \<Rightarrow>
             (Some err,
              Log Crit [(''during'', S ''db.DropTableIfExists''), (''err'', E err),
                        (''msg'', S (''error truncating table: '' @ Error err))] h2)
         | (None, h2) \<Rightarrow> (None, h2))"

definition Truncate_part000 :: "db \<Rightarrow> table list \<Rightarrow> (error option) io" where
  "Truncate_part000 d tables h =
     (let h0 = Log Info [(''msg'', S ''running db truncation'')] h;
          len = length tables
      in case for_range [0..<length tables]
                (\<lambda>i. Truncate_part000_body d (tables ! (len - i - 1))) h0 of
           (Some err, h') \<Rightarrow> (Some err, h')
         | (None, h') \<Rightarrow> (None, Log Info [(''msg'', S ''db truncation complete'')] h'))"

definition ResetDB_part000 :: "db \<Rightarrow> table list \<Rightarrow> (error option) io" where
  "ResetDB_part000 d tables h =
     (case Truncate_part000 d tables h of
        (Some err, h') \<Rightarrow> (Some err, h')
      | (None, h') \<Rightarrow> AutoMigrate d tables h')"

section \<open>dbutils.go\<close>

subsection \<open>keyMatcher\<close>

text \<open>
  \<open>keyMatcher\<close> is the regular expression \<^verbatim>\<open> ?\(([^)]+)\)?\<close>: an optional space, an
  opening parenthesis, group 1 of one or more characters other than the closing
  parenthesis, and an optional closing parenthesis. Every repetition is greedy and
  nothing follows the optional parts, so the match that Go's leftmost-first search
  prefers at a position is the one that takes the space when a parenthesis follows it,
  every character up to the next closing parenthesis, and that parenthesis when it is
  there. \<open>keyMatcher_at\<close> matches at the head of the input and gives group 1 with the
  input left after the match. The delimiters are ASCII, so matching bytes and matching
  runes agree.
\<close>

definition open_paren :: "string \<Rightarrow> string option" where
  "open_paren s =
     (case s of
        c # cs \<Rightarrow>
          if c = CHR '' '' then
            (case cs of
               c' # cs' \<Rightarrow> if c' = CHR ''('' then Some cs' else None
             | [] \<Rightarrow> None)
          else if c = CHR ''('' then Some cs
          else None
      | [] \<Rightarrow> None)"

definition keyMatcher_at :: "string \<Rightarrow> (string \<times> string) option" where
  "keyMatcher_at s =
     (case open_paren s of
        None \<Rightarrow> None
      | Some r \<Rightarrow>
          (let g = takeWhile (\<lambda>c. c \<noteq> CHR '')'') r;
               rest = dropWhile (\<lambda>c. c \<noteq> CHR '')'') r
           in if g = [] then None
              else Some (g, case rest of [] \<Rightarrow> [] | _ # rest' \<Rightarrow> rest')))"

lemma open_paren_shorter: "open_paren s = Some r \<Longrightarrow> length r < length s"
  by (auto simp: open_paren_def split: list.splits if_splits)

lemma keyMatcher_at_shorter:
  assumes "keyMatcher_at s = Some (g, rest)"
  shows "length rest < length s"
proof -
  from assms obtain r where r: "open_paren s = Some r"
    by (auto simp: keyMatcher_at_def split: option.splits)
  have "length (dropWhile (\<lambda>c. c \<noteq> CHR '')'') r) \<le> length r"
    by (rule length_dropWhile_le)
  with assms r have "length rest \<le> length r"
    by (auto simp: keyMatcher_at_def Let_def split: if_splits list.splits)
  with open_paren_shorter [OF r] show ?thesis by simp
qed

text \<open>
  \<open>keyMatcher.ReplaceAllString(src, "_${1}")\<close>: scanning from the left, every match is
  replaced by an underscore followed by its group 1 and the scan goes on after the
  match; a character where no match starts is copied.
\<close>

function keyMatcher_ReplaceAllString :: "string \<Rightarrow> string" where
  "keyMatcher_ReplaceAllString [] = []"
| "keyMatcher_ReplaceAllString (c # cs) =
     (case keyMatcher_at (c # cs) of
        Some (g, rest) \<Rightarrow> ''_'' @ g @ keyMatcher_ReplaceAllString rest
      | None \<Rightarrow> c # keyMatcher_ReplaceAllString cs)"
  by pat_completeness auto
termination
  by (relation "measure length") (auto dest: keyMatcher_at_shorter)

subsection \<open>EnsureForeignKey, EnsureConstraint, EnsureIndex\<close>

definition fk_expectedMsg :: "string \<Rightarrow> string \<Rightarrow> string \<Rightarrow> string" where
  \<open>fk_expectedMsg sourceTable column table =
     (let tableFragment = keyMatcher_ReplaceAllString table
      in ''pq: constraint "'' @ sourceTable @ ''_'' @ column @ ''_'' @ tableFragment
           @ ''_foreign" for relation "'' @ sourceTable @ ''" already exists'')\<close>

definition EnsureForeignKey ::
  "db \<Rightarrow> table \<Rightarrow> string \<Rightarrow> string \<Rightarrow> string \<Rightarrow> string \<Rightarrow> string \<Rightarrow> (error option) io" where
  "EnsureForeignKey d model sourceTable column table onDelete onUpdate h =
     (case invoke d (DbAddForeignKey model column table onDelete onUpdate) h of
        (Some err, h1) \<Rightarrow>
          if Error err = fk_expectedMsg sourceTable column table then
            (None, h1 @ [ScopeLog (''Foreign-key constraint appears to already exist: '' @ Error err)])
          else (Some err, h1)
      | (None, h1) \<Rightarrow> (None, h1))"

definition constraint_expectedMsg :: "string \<Rightarrow> string \<Rightarrow> string" where
  \<open>constraint_expectedMsg name tableName =
     ''pq: constraint "'' @ name @ ''" for relation "'' @ tableName @ ''" already exists''\<close>

definition constraint_query :: "scope \<Rightarrow> string \<Rightarrow> string \<Rightarrow> string" where
  "constraint_query scope name constraint =
     ''ALTER TABLE '' @ QuotedTableName scope @ '' ADD CONSTRAINT ''
       @ Quote scope name @ '' '' @ constraint @ '';''"

definition EnsureConstraint :: "db \<Rightarrow> table \<Rightarrow> string \<Rightarrow> string \<Rightarrow> (error option) io" where
  "EnsureConstraint d model name constraint h =
     (let scope = NewScope d model
      in case invoke d (DbExec (constraint_query scope name constraint)) h of
           (Some err, h1) \<Rightarrow>
             if Error err = constraint_expectedMsg name (TableName scope) then
               (None, h1 @ [ScopeLog (''Constraint appears to already exist: '' @ Error err)])
             else (Some err, h1)
         | (None, h1) \<Rightarrow> (None, h1))"

definition index_expectedMsg :: "string \<Rightarrow> string" where
  \<open>index_expectedMsg name = ''pq: relation "'' @ name @ ''" already exists''\<close>

definition index_query :: "scope \<Rightarrow> string \<Rightarrow> string \<Rightarrow> bool \<Rightarrow> string" where
  "index_query scope name constraint unique =
     (if unique then ''CREATE UNIQUE INDEX '' else ''CREATE INDEX '')
       @ Quote scope name @ '' ON '' @ constraint @ '';''"

definition EnsureIndex :: "db \<Rightarrow> table \<Rightarrow> string \<Rightarrow> string \<Rightarrow> bool \<Rightarrow> (error option) io" where
  "EnsureIndex d model name constraint unique h =
     (let scope = NewScope d model
      in case invoke d (DbExec (index_query scope name constraint unique)) h of
           (Some err, h1) \<Rightarrow>
             if Error err = index_expectedMsg name then
               (None, h1 @ [ScopeLog (''Index appears to already exist: '' @ Error err)])
             else (Some err, h1)
         | (None, h1) \<Rightarrow> (None, h1))"

subsection \<open>Transact\<close>

text \<open>
  The unit of work either returns its error result or panics. \<open>Panics r\<close> carries what
  \<open>recover()\<close> yields in the deferred function after the panic: \<open>Some\<close> of an error value or
  of a value of another type, or \<open>None\<close> when \<open>recover()\<close> is nil although \<open>f\<close> panicked.
  That is what \<open>panic(nil)\<close> gives on every runtime before Go 1.21 and, since Go 1.21,
  under the setting \<open>panicnil=1\<close>, which is the default when the go directive of the main
  module is below 1.21; otherwise \<open>panic(nil)\<close> arrives as a run-time error value, an
  error payload. \<open>recover()\<close> is nil when \<open>f\<close> returned. \<open>format\<close> is what \<open>%+v\<close> prints for
  a payload that is not an error. The named result \<open>err\<close> is nil until \<open>f\<close> returns, so
  it is nil in the deferred function when \<open>f\<close> panicked.
\<close>

datatype 'v payload = ErrorPayload error | OtherPayload 'v

datatype 'v outcome = Returns "error option" | Panics "'v payload option"

fun recover :: "'v outcome \<Rightarrow> 'v payload option" where
  "recover (Returns _) = None"
| "recover (Panics r) = r"

definition Transact ::
  "db \<Rightarrow> ('v \<Rightarrow> string) \<Rightarrow> (event list \<Rightarrow> 'v outcome) \<Rightarrow> (error option) io" where
  "Transact d format f h =
     (let h1 = snd (invoke d DbBegin h);
          out = f h1;
          err = (case out of Returns e \<Rightarrow> e | Panics _ \<Rightarrow> None);
          (err, h2) =
            (case recover out of
               Some r \<Rightarrow>
                 (let err = (case r of
                               ErrorPayload er \<Rightarrow> er
                             | OtherPayload v \<Rightarrow> ErrorString (format v))
                  in (Some err, h1 @ [Println [E err], PrintStack]))
             | None \<Rightarrow> (err, h1))
      in case err of
           Some _ \<Rightarrow>
             (case invoke d TxRollback h2 of
                (Some e, h3) \<Rightarrow> (err, h3 @ [Println [S ''Rollback Error:'', E e]])
              | (None, h3) \<Rightarrow> (err, h3))
         | None \<Rightarrow> invoke d TxCommit h2)"

subsection \<open>ToUpdateColumnsMap\<close>

text \<open>
  A field as the schema layer describes it: its column name, its current value
  (\<open>f.Field.Interface()\<close>), and the mark the schema layer sets on a field it does not
  persist (a field tagged \<open>gorm:"-"\<close>). \<open>Fields\<close> stands for
  \<open>db.NewScope(structval).Fields()\<close>, which lists the marked fields with the others.
  \<open>ToUpdateColumnsMap\<close> reads the column name and the value only.
\<close>

record 'v field =
  DBName :: string
  Interface :: 'v
  IsIgnored :: bool

definition ToUpdateColumnsMap ::
  "('s \<Rightarrow> 'v field list) \<Rightarrow> string \<Rightarrow> 's \<Rightarrow> (string \<rightharpoonup> 'v)" where
  "ToUpdateColumnsMap Fields prefix structval =
     (let fs = Fields structval
      in foldl (\<lambda>r f. r(prefix @ DBName f \<mapsto> Interface f)) Map.empty fs)"

section \<open>Reading a run\<close>

text \<open>
  The calls a table costs \<open>AutoMigrate\<close> when nothing fails: its schema sync and, right
  after it, its hook when the table is \<open>Migratable\<close>.
\<close>

definition migrate_calls :: "table \<Rightarrow> (call \<times> error option) list" where
  "migrate_calls t =
     (DbAutoMigrate t, None) # (if migratable t then [(AfterMigrate t, None)] else [])"

text \<open>The statement \<open>Truncate\<close> of migrate.go executes for a table.\<close>

definition truncate_call :: "db \<Rightarrow> table \<Rightarrow> call" where
  "truncate_call d t = DbExec (''TRUNCATE TABLE '' @ QuotedTableName (NewScope d t))"

text \<open>
  Calls that create or update schema (a schema sync or a hook), and the tables whose
  schema sync was called, in the order of the calls.
\<close>

fun creation_call :: "call \<Rightarrow> bool" where
  "creation_call (DbAutoMigrate _) = True"
| "creation_call (AfterMigrate _) = True"
| "creation_call _ = False"

fun synced :: "(call \<times> error option) list \<Rightarrow> table list" where
  "synced [] = []"
| "synced ((DbAutoMigrate t, _) # cs) = t # synced cs"
| "synced (_ # cs) = synced cs"

text \<open>
  The trace once \<open>Transact\<close> has begun the transaction, and the log line of a failed
  rollback.
\<close>

definition begun :: "db \<Rightarrow> event list \<Rightarrow> event list" where
  "begun d h = h @ [Called DbBegin (reply d (calls_of h) DbBegin)]"

definition rollback_log :: "error option \<Rightarrow> event list" where
  "rollback_log r = (case r of None \<Rightarrow> [] | Some e \<Rightarrow> [Println [S ''Rollback Error:'', E e]])"

section \<open>Example runs\<close>

text \<open>
  Four tables, of which \<open>B\<close> has no hook; a scope that quotes with double quotes; a
  database that never fails and one that answers an error to one call and succeeds on
  every other; and the errors the examples use.
\<close>

definition table_A :: table where "table_A = \<lparr>type_name = ''*models.A'', migratable = True\<rparr>"
definition table_B :: table where "table_B = \<lparr>type_name = ''*models.B'', migratable = False\<rparr>"
definition table_C :: table where "table_C = \<lparr>type_name = ''*models.C'', migratable = True\<rparr>"
definition table_D :: table where "table_D = \<lparr>type_name = ''*models.D'', migratable = True\<rparr>"

definition quoting_scope :: "table \<Rightarrow> scope" where
  \<open>quoting_scope t =
     \<lparr>TableName = drop 8 (type_name t),
      QuotedTableName = ''"'' @ drop 8 (type_name t) @ ''"'',
      Quote = (\<lambda>s. ''"'' @ s @ ''"'')\<rparr>\<close>

definition db_ok :: db where
  "db_ok = \<lparr>NewScope = quoting_scope, reply = (\<lambda>_ _. None)\<rparr>"

definition db_failing :: "call \<Rightarrow> error \<Rightarrow> db" where
  "db_failing c e = \<lparr>NewScope = quoting_scope, reply = (\<lambda>_ c'. if c' = c then Some e else None)\<rparr>"

definition users_fk :: call where
  "users_fk = DbAddForeignKey table_A ''user_id'' ''users (id)'' ''CASCADE'' ''CASCADE''"

definition fk_exists :: error where
  \<open>fk_exists = Err 5 ''pq: constraint "orders_user_id_users_id_foreign" for relation "orders" already exists''\<close>

definition denied :: error where
  "denied = Err 6 ''pq: permission denied for relation orders''"

definition work_error :: error where "work_error = Err 7 ''insufficient funds''"
definition rollback_error :: error where "rollback_error = Err 9 ''sql: transaction has already been committed or rolled back''"
definition commit_error :: error where "commit_error = Err 10 ''pq: could not serialize access''"
definition panic_error :: error where "panic_error = Err 8 ''runtime error: index out of range''"

definition orders_check :: string where
  "orders_check = ''CHECK (total >= 0)''"

definition check_exists :: error where
  \<open>check_exists = Err 11 ''pq: constraint "total_positive" for relation "A" already exists''\<close>

definition index_exists :: error where
  \<open>index_exists = Err 12 ''pq: relation "idx_a_name" already exists''\<close>

text \<open>
  Fields of an entity: \<open>id = 1\<close> and \<open>name = "x"\<close>, a field the schema layer does not
  persist, and a second field whose column is \<open>id\<close> as well.
\<close>

definition id_field :: "(int + string) field" where
  "id_field = \<lparr>DBName = ''id'', Interface = Inl 1, IsIgnored = False\<rparr>"

definition name_field :: "(int + string) field" where
  "name_field = \<lparr>DBName = ''name'', Interface = Inr ''x'', IsIgnored = False\<rparr>"

definition draft_field :: "(int + string) field" where
  "draft_field = \<lparr>DBName = ''draft'', Interface = Inr ''unsaved'', IsIgnored = True\<rparr>"

definition shadowed_id_field :: "(int + string) field" where
  "shadowed_id_field = \<lparr>DBName = ''id'', Interface = Inl 2, IsIgnored = False\<rparr>"

section \<open>Traces and loops\<close>

lemma calls_of_append: "calls_of (h @ g) = calls_of h @ calls_of g"
  by (induction h rule: calls_of.induct) simp_all

lemma calls_of_Log: "calls_of (Log lv kvs h) = calls_of h"
  by (simp add: Log_def calls_of_append)

lemma invoke_eq: "invoke d c h = (reply d (calls_of h) c, h @ [Called c (reply d (calls_of h) c)])"
  by (simp add: invoke_def Let_def)

lemma for_range_append:
  "for_range (xs @ ys) body h =
     (case for_range xs body h of
        (Some err, h') \<Rightarrow> (Some err, h')
      | (None, h') \<Rightarrow> for_range ys body h')"
  by (induction xs arbitrary: h) (auto split: prod.splits option.splits)

lemma for_range_cong:
  "(\<And>x h. x \<in> set xs \<Longrightarrow> body x h = body' x h) \<Longrightarrow> for_range xs body h = for_range xs body' h"
  by (induction xs arbitrary: h) (auto split: prod.splits option.splits)

lemma for_range_map: "for_range (map f xs) body h = for_range xs (\<lambda>x. body (f x)) h"
  by (induction xs arbitrary: h) (auto split: prod.splits option.splits)

lemma reverse_indices:
  "map (\<lambda>i. tables ! (length tables - i - 1)) [0..<length tables] = rev tables"
  by (rule nth_equalityI) (simp_all add: rev_nth)

lemma reverse_loop:
  "for_range [0..<length tables] (\<lambda>i. body (tables ! (length tables - i - 1))) h
     = for_range (rev tables) body h"
proof -
  have "for_range (rev tables) body h
          = for_range (map (\<lambda>i. tables ! (length tables - i - 1)) [0..<length tables]) body h"
    by (simp only: reverse_indices)
  also have "\<dots> = for_range [0..<length tables] (\<lambda>i. body (tables ! (length tables - i - 1))) h"
    by (rule for_range_map)
  finally show ?thesis by (rule sym)
qed

lemma reverse_loop_Suc:
  "for_range [0..<length tables] (\<lambda>i. body (tables ! (length tables - Suc i))) h
     = for_range (rev tables) body h"
  using reverse_loop [of tables body h] by simp

text \<open>A loop whose body makes one call and returns what the call answered.\<close>

lemma one_call_loop_None:
  assumes body: "\<And>x h. fst (body x h) = reply d (calls_of h) (mk x)
                     \<and> calls_of (snd (body x h)) = calls_of h @ [(mk x, reply d (calls_of h) (mk x))]"
    and ok: "fst (for_range xs body h) = None"
  shows "calls_of (snd (for_range xs body h)) = calls_of h @ map (\<lambda>x. (mk x, None)) xs"
  using ok
proof (induction xs arbitrary: h)
  case Nil
  then show ?case by simp
next
  case (Cons x xs)
  obtain r h1 where b: "body x h = (r, h1)" by (cases "body x h")
  with Cons.prems have r: "r = None" by (cases r) auto
  with b body [of x h] have c: "calls_of h1 = calls_of h @ [(mk x, None)]" by simp
  from Cons.prems b r have "fst (for_range xs body h1) = None" by simp
  from Cons.IH [OF this] b r c show ?case by simp
qed

lemma one_call_loop_fails:
  assumes body: "\<And>x h. fst (body x h) = reply d (calls_of h) (mk x)
                     \<and> calls_of (snd (body x h)) = calls_of h @ [(mk x, reply d (calls_of h) (mk x))]"
    and ok: "fst (for_range xs body h) = None"
    and bad: "reply d (calls_of h @ map (\<lambda>x. (mk x, None)) xs) (mk c) = Some e"
  shows "fst (for_range (xs @ c # ys) body h) = Some e
       \<and> calls_of (snd (for_range (xs @ c # ys) body h))
           = calls_of h @ map (\<lambda>x. (mk x, None)) xs @ [(mk c, Some e)]"
proof -
  obtain h1 where l: "for_range xs body h = (None, h1)"
    using ok by (cases "for_range xs body h") auto
  from one_call_loop_None [of body d mk xs h, OF body ok] l
  have c1: "calls_of h1 = calls_of h @ map (\<lambda>x. (mk x, None)) xs" by simp
  obtain r h2 where b: "body c h1 = (r, h2)" by (cases "body c h1")
  with body [of c h1] c1 bad have r: "r = Some e"
    and c2: "calls_of h2 = calls_of h @ map (\<lambda>x. (mk x, None)) xs @ [(mk c, Some e)]"
    by simp_all
  have "for_range (xs @ c # ys) body h = (Some e, h2)"
    by (simp add: for_range_append l b r)
  with c2 show ?thesis by simp
qed

lemma synced_append: "synced (xs @ ys) = synced xs @ synced ys"
  by (induction xs rule: synced.induct) simp_all

lemma one_call_loop_prefix:
  assumes body: "\<And>x h. fst (body x h) = reply d (calls_of h) (mk x)
                     \<and> calls_of (snd (body x h)) = calls_of h @ [(mk x, reply d (calls_of h) (mk x))]"
  shows "\<exists>n cs. n \<le> length xs \<and> calls_of (snd (for_range xs body h)) = calls_of h @ cs
               \<and> map fst cs = map mk (take n xs)"
proof (induction xs arbitrary: h)
  case Nil
  then show ?case by simp
next
  case (Cons x xs)
  obtain r h1 where b: "body x h = (r, h1)" by (cases "body x h")
  with body [of x h] have c: "calls_of h1 = calls_of h @ [(mk x, r)]" by simp
  show ?case
  proof (cases r)
    case None
    from Cons.IH [of h1] obtain n cs where n: "n \<le> length xs"
      and cs: "calls_of (snd (for_range xs body h1)) = calls_of h1 @ cs"
      and m: "map fst cs = map mk (take n xs)" by blast
    have "Suc n \<le> length (x # xs)
        \<and> calls_of (snd (for_range (x # xs) body h)) = calls_of h @ ((mk x, r) # cs)
        \<and> map fst ((mk x, r) # cs) = map mk (take (Suc n) (x # xs))"
      using n cs m b None c by simp
    then show ?thesis by blast
  next
    case (Some e)
    have "Suc 0 \<le> length (x # xs)
        \<and> calls_of (snd (for_range (x # xs) body h)) = calls_of h @ [(mk x, r)]
        \<and> map fst [(mk x, r)] = map mk (take (Suc 0) (x # xs))"
      using b Some c by simp
    then show ?thesis by blast
  qed
qed

lemma for_range_sim:
  assumes sim: "\<And>x h g. calls_of h = calls_of g \<Longrightarrow>
                  fst (body x h) = fst (body' x g)
                  \<and> calls_of (snd (body x h)) = calls_of (snd (body' x g))"
    and eq: "calls_of h = calls_of g"
  shows "fst (for_range xs body h) = fst (for_range xs body' g)
       \<and> calls_of (snd (for_range xs body h)) = calls_of (snd (for_range xs body' g))"
  using eq
proof (induction xs arbitrary: h g)
  case Nil
  then show ?case by simp
next
  case (Cons x xs)
  obtain r h1 where b: "body x h = (r, h1)" by (cases "body x h")
  obtain r' g1 where b': "body' x g = (r', g1)" by (cases "body' x g")
  from sim [OF Cons.prems, of x] b b' have r: "r' = r" and c: "calls_of h1 = calls_of g1"
    by simp_all
  show ?case
  proof (cases r)
    case None
    with Cons.IH [OF c] b b' r show ?thesis by simp
  next
    case (Some e)
    with b b' r c show ?thesis by simp
  qed
qed

lemma one_call_loop_first:
  assumes body: "\<And>x h. fst (body x h) = reply d (calls_of h) (mk x)
                     \<and> calls_of (snd (body x h)) = calls_of h @ [(mk x, reply d (calls_of h) (mk x))]"
  shows "\<exists>r cs. calls_of (snd (for_range (x # xs) body h)) = calls_of h @ (mk x, r) # cs"
proof -
  obtain r h1 where b: "body x h = (r, h1)" by (cases "body x h")
  with body [of x h] have c: "calls_of h1 = calls_of h @ [(mk x, r)]" by simp
  show ?thesis
  proof (cases r)
    case None
    from one_call_loop_prefix [of body d mk xs h1, OF body] obtain cs where
      "calls_of (snd (for_range xs body h1)) = calls_of h1 @ cs" by blast
    with b None c have "calls_of (snd (for_range (x # xs) body h)) = calls_of h @ (mk x, r) # cs"
      by simp
    then show ?thesis by blast
  next
    case (Some e)
    with b c have "calls_of (snd (for_range (x # xs) body h)) = calls_of h @ (mk x, r) # []"
      by simp
    then show ?thesis by blast
  qed
qed

lemmas run_defs =
  AutoMigrate_def AutoMigrate_body_def Drop_def Drop_body_def Truncate_def Truncate_body_def
  Truncate_part000_def Truncate_part000_body_def ResetDB_def ResetDB_part000_def
  invoke_def Log_def Let_def
  table_A_def table_B_def table_C_def table_D_def quoting_scope_def db_ok_def db_failing_def

section \<open>The empty table list\<close>

text \<open>
  C10. For the empty table list \<open>AutoMigrate\<close>, \<open>Drop\<close>, \<open>Truncate\<close> and \<open>ResetDB\<close> (of
  both migration files) return nil, and all they add to the trace are their "starting"
  and "complete" informational log lines: no call on the database, no hook, no
  per-table log line.
\<close>

theorem empty_table_list:
  "AutoMigrate d [] h =
     (None, h @ [Logged Info [(''msg'', S ''running db auto-migration...'')],
                 Logged Info [(''msg'', S ''db auto-migration done.'')]])
   \<and> Drop d [] h =
     (None, h @ [Logged Info [(''msg'', S ''running db drop'')],
                 Logged Info [(''msg'', S ''db drop complete'')]])
   \<and> Truncate d [] h =
     (None, h @ [Logged Info [(''msg'', S ''running db truncate'')],
                 Logged Info [(''msg'', S ''db truncate complete'')]])
   \<and> ResetDB d [] h =
     (None, h @ [Logged Info [(''msg'', S ''running db drop'')],
                 Logged Info [(''msg'', S ''db drop complete'')],
                 Logged Info [(''msg'', S ''running db auto-migration...'')],
                 Logged Info [(''msg'', S ''db auto-migration done.'')]])
   \<and> Truncate_part000 d [] h =
     (None, h @ [Logged Info [(''msg'', S ''running db truncation'')],
                 Logged Info [(''msg'', S ''db truncation complete'')]])
   \<and> ResetDB_part000 d [] h =
     (None, h @ [Logged Info [(''msg'', S ''running db truncation'')],
                 Logged Info [(''msg'', S ''db truncation complete'')],
                 Logged Info [(''msg'', S ''running db auto-migration...'')],
                 Logged Info [(''msg'', S ''db auto-migration done.'')]])"
  by (simp add: AutoMigrate_def Drop_def Truncate_def ResetDB_def Truncate_part000_def
      ResetDB_part000_def Log_def Let_def)

section \<open>AutoMigrate stops at the first error\<close>

lemma AutoMigrate_body_None:
  "AutoMigrate_body d t h = (None, h') \<Longrightarrow> calls_of h' = calls_of h @ migrate_calls t"
  by (auto simp: AutoMigrate_body_def invoke_eq Let_def calls_of_append calls_of_Log migrate_calls_def
           split: option.splits if_splits)

lemma AutoMigrate_loop_None:
  "for_range ts (AutoMigrate_body d) h = (None, h') \<Longrightarrow>
   calls_of h' = calls_of h @ concat (map migrate_calls ts)"
proof (induction ts arbitrary: h)
  case Nil
  then show ?case by simp
next
  case (Cons t ts)
  from Cons.prems obtain h1 where b: "AutoMigrate_body d t h = (None, h1)"
    and r: "for_range ts (AutoMigrate_body d) h1 = (None, h')"
    by (auto split: prod.splits option.splits)
  from Cons.IH [OF r] AutoMigrate_body_None [OF b] show ?case by simp
qed

lemma AutoMigrate_body_sync_fails:
  "reply d (calls_of h) (DbAutoMigrate t) = Some e \<Longrightarrow>
   fst (AutoMigrate_body d t h) = Some e
   \<and> calls_of (snd (AutoMigrate_body d t h)) = calls_of h @ [(DbAutoMigrate t, Some e)]"
  by (simp add: AutoMigrate_body_def invoke_eq Let_def calls_of_append calls_of_Log)

lemma AutoMigrate_body_hook_fails:
  "reply d (calls_of h) (DbAutoMigrate t) = None \<Longrightarrow> migratable t \<Longrightarrow>
   reply d (calls_of h @ [(DbAutoMigrate t, None)]) (AfterMigrate t) = Some e \<Longrightarrow>
   fst (AutoMigrate_body d t h) = Some e
   \<and> calls_of (snd (AutoMigrate_body d t h))
        = calls_of h @ [(DbAutoMigrate t, None), (AfterMigrate t, Some e)]"
  by (simp add: AutoMigrate_body_def invoke_eq Let_def calls_of_append calls_of_Log)

lemma AutoMigrate_None:
  "fst (AutoMigrate d ts h) = None \<Longrightarrow>
   \<exists>h'. for_range ts (AutoMigrate_body d)
          (Log Info [(''msg'', S ''running db auto-migration...'')] h) = (None, h')
        \<and> calls_of (snd (AutoMigrate d ts h)) = calls_of h'"
  by (auto simp: AutoMigrate_def Let_def calls_of_Log split: prod.splits option.splits)

lemma AutoMigrate_stops:
  assumes pre: "fst (AutoMigrate d pre h) = None"
    and body: "\<And>h1. calls_of h1 = calls_of h @ concat (map migrate_calls pre) \<Longrightarrow>
               fst (AutoMigrate_body d c h1) = Some e \<and> calls_of (snd (AutoMigrate_body d c h1)) = calls_of h1 @ tail"
  shows "fst (AutoMigrate d (pre @ c # post) h) = Some e
       \<and> calls_of (snd (AutoMigrate d (pre @ c # post) h))
           = calls_of h @ concat (map migrate_calls pre) @ tail"
proof -
  let ?h0 = "Log Info [(''msg'', S ''running db auto-migration...'')] h"
  from AutoMigrate_None [OF pre] obtain h1 where
    l: "for_range pre (AutoMigrate_body d) ?h0 = (None, h1)" by blast
  from AutoMigrate_loop_None [OF l] have c1: "calls_of h1 = calls_of h @ concat (map migrate_calls pre)"
    by (simp add: calls_of_Log)
  obtain h2 where b: "AutoMigrate_body d c h1 = (Some e, h2)"
    using body [OF c1] by (cases "AutoMigrate_body d c h1") auto
  with body [OF c1] c1 have c2: "calls_of h2 = calls_of h @ concat (map migrate_calls pre) @ tail"
    by simp
  have "for_range (pre @ c # post) (AutoMigrate_body d) ?h0 = (Some e, h2)"
    by (simp add: for_range_append l b)
  then have "AutoMigrate d (pre @ c # post) h = (Some e, h2)"
    by (simp add: AutoMigrate_def Let_def)
  with c2 show ?thesis by simp
qed

text \<open>
  C4. Let the tables before \<open>c\<close> migrate without error, so that the calls made for them
  are, table by table and in list order, the schema sync followed at once by the hook
  of a \<open>Migratable\<close> table. If then the schema sync of \<open>c\<close> succeeds, \<open>c\<close> is \<open>Migratable\<close>
  and its hook fails with \<open>e\<close>, \<open>AutoMigrate\<close> returns exactly \<open>e\<close> and its last two
  calls are the sync and the hook of \<open>c\<close>: no table after \<open>c\<close> is touched. If instead
  the schema sync of \<open>c\<close> fails with \<open>e\<close>, \<open>AutoMigrate\<close> returns exactly \<open>e\<close> and that
  sync is its last call: neither the hook of \<open>c\<close> nor a later table is touched.
\<close>

theorem AutoMigrate_fail_fast:
  assumes "fst (AutoMigrate d pre h) = None"
  shows "(reply d (calls_of h @ concat (map migrate_calls pre)) (DbAutoMigrate c) = None
          \<and> migratable c
          \<and> reply d (calls_of h @ concat (map migrate_calls pre) @ [(DbAutoMigrate c, None)])
                (AfterMigrate c) = Some e
          \<longrightarrow> fst (AutoMigrate d (pre @ c # post) h) = Some e
            \<and> calls_of (snd (AutoMigrate d (pre @ c # post) h))
                = calls_of h @ concat (map migrate_calls pre)
                    @ [(DbAutoMigrate c, None), (AfterMigrate c, Some e)])
       \<and> (reply d (calls_of h @ concat (map migrate_calls pre)) (DbAutoMigrate c) = Some e
          \<longrightarrow> fst (AutoMigrate d (pre @ c # post) h) = Some e
            \<and> calls_of (snd (AutoMigrate d (pre @ c # post) h))
                = calls_of h @ concat (map migrate_calls pre) @ [(DbAutoMigrate c, Some e)])"
proof (intro conjI impI)
  assume a: "reply d (calls_of h @ concat (map migrate_calls pre)) (DbAutoMigrate c) = None
          \<and> migratable c
          \<and> reply d (calls_of h @ concat (map migrate_calls pre) @ [(DbAutoMigrate c, None)])
                (AfterMigrate c) = Some e"
  have *: "fst (AutoMigrate d (pre @ c # post) h) = Some e
       \<and> calls_of (snd (AutoMigrate d (pre @ c # post) h))
           = calls_of h @ concat (map migrate_calls pre) @ [(DbAutoMigrate c, None), (AfterMigrate c, Some e)]"
  proof (rule AutoMigrate_stops [OF assms])
    fix h1 assume "calls_of h1 = calls_of h @ concat (map migrate_calls pre)"
    with a show "fst (AutoMigrate_body d c h1) = Some e \<and>
          calls_of (snd (AutoMigrate_body d c h1)) =
          calls_of h1 @ [(DbAutoMigrate c, None), (AfterMigrate c, Some e)]"
      by (intro AutoMigrate_body_hook_fails) simp_all
  qed
  from * show "fst (AutoMigrate d (pre @ c # post) h) = Some e" ..
  from * show "calls_of (snd (AutoMigrate d (pre @ c # post) h))
                = calls_of h @ concat (map migrate_calls pre)
                    @ [(DbAutoMigrate c, None), (AfterMigrate c, Some e)]" ..
next
  assume a: "reply d (calls_of h @ concat (map migrate_calls pre)) (DbAutoMigrate c) = Some e"
  have *: "fst (AutoMigrate d (pre @ c # post) h) = Some e
       \<and> calls_of (snd (AutoMigrate d (pre @ c # post) h))
           = calls_of h @ concat (map migrate_calls pre) @ [(DbAutoMigrate c, Some e)]"
  proof (rule AutoMigrate_stops [OF assms])
    fix h1 assume "calls_of h1 = calls_of h @ concat (map migrate_calls pre)"
    with a show "fst (AutoMigrate_body d c h1) = Some e \<and>
          calls_of (snd (AutoMigrate_body d c h1)) = calls_of h1 @ [(DbAutoMigrate c, Some e)]"
      by (intro AutoMigrate_body_sync_fails) simp
  qed
  from * show "fst (AutoMigrate d (pre @ c # post) h) = Some e" ..
  from * show "calls_of (snd (AutoMigrate d (pre @ c # post) h))
                = calls_of h @ concat (map migrate_calls pre) @ [(DbAutoMigrate c, Some e)]" ..
qed

text \<open>
  The list \<open>[A, B, C]\<close> with a further table behind \<open>C\<close>: once with the hook of \<open>C\<close>
  failing, once with its schema sync failing.
\<close>

theorem AutoMigrate_fail_fast_witness:
  "fst (AutoMigrate (db_failing (AfterMigrate table_C) (Err 1 ''hook failed'')) [table_A, table_B] []) = None
   \<and> migratable table_C
   \<and> fst (AutoMigrate (db_failing (AfterMigrate table_C) (Err 1 ''hook failed''))
            [table_A, table_B, table_C, table_D] []) = Some (Err 1 ''hook failed'')
   \<and> calls_of (snd (AutoMigrate (db_failing (AfterMigrate table_C) (Err 1 ''hook failed''))
            [table_A, table_B, table_C, table_D] []))
       = [(DbAutoMigrate table_A, None), (AfterMigrate table_A, None),
          (DbAutoMigrate table_B, None),
          (DbAutoMigrate table_C, None), (AfterMigrate table_C, Some (Err 1 ''hook failed''))]
   \<and> fst (AutoMigrate (db_failing (DbAutoMigrate table_C) (Err 2 ''sync failed'')) [table_A, table_B] []) = None
   \<and> fst (AutoMigrate (db_failing (DbAutoMigrate table_C) (Err 2 ''sync failed''))
            [table_A, table_B, table_C, table_D] []) = Some (Err 2 ''sync failed'')
   \<and> calls_of (snd (AutoMigrate (db_failing (DbAutoMigrate table_C) (Err 2 ''sync failed''))
            [table_A, table_B, table_C, table_D] []))
       = [(DbAutoMigrate table_A, None), (AfterMigrate table_A, None),
          (DbAutoMigrate table_B, None),
          (DbAutoMigrate table_C, Some (Err 2 ''sync failed''))]"
proof -
  let ?d1 = "db_failing (AfterMigrate table_C) (Err 1 ''hook failed'')"
  let ?d2 = "db_failing (DbAutoMigrate table_C) (Err 2 ''sync failed'')"
  have p1: "fst (AutoMigrate ?d1 [table_A, table_B] []) = None"
    by (simp add: run_defs)
  have p2: "fst (AutoMigrate ?d2 [table_A, table_B] []) = None"
    by (simp add: run_defs)
  have m: "migratable table_C" by (simp add: table_C_def)
  have r1: "reply ?d1 (calls_of [] @ concat (map migrate_calls [table_A, table_B]))
              (DbAutoMigrate table_C) = None
          \<and> migratable table_C
          \<and> reply ?d1 (calls_of [] @ concat (map migrate_calls [table_A, table_B])
                         @ [(DbAutoMigrate table_C, None)])
                (AfterMigrate table_C) = Some (Err 1 ''hook failed'')"
    by (simp add: db_failing_def table_C_def)
  have r2: "reply ?d2 (calls_of [] @ concat (map migrate_calls [table_A, table_B]))
              (DbAutoMigrate table_C) = Some (Err 2 ''sync failed'')"
    by (simp add: db_failing_def)
  from AutoMigrate_fail_fast [OF p1, of table_C "Err 1 ''hook failed''" "[table_D]", THEN conjunct1,
      rule_format, OF r1]
  have c1: "fst (AutoMigrate ?d1 [table_A, table_B, table_C, table_D] []) = Some (Err 1 ''hook failed'')
    \<and> calls_of (snd (AutoMigrate ?d1 [table_A, table_B, table_C, table_D] []))
       = [(DbAutoMigrate table_A, None), (AfterMigrate table_A, None),
          (DbAutoMigrate table_B, None),
          (DbAutoMigrate table_C, None), (AfterMigrate table_C, Some (Err 1 ''hook failed''))]"
    by (simp add: migrate_calls_def table_A_def table_B_def)
  from AutoMigrate_fail_fast [OF p2, of table_C "Err 2 ''sync failed''" "[table_D]", THEN conjunct2,
      rule_format, OF r2]
  have c2: "fst (AutoMigrate ?d2 [table_A, table_B, table_C, table_D] []) = Some (Err 2 ''sync failed'')
    \<and> calls_of (snd (AutoMigrate ?d2 [table_A, table_B, table_C, table_D] []))
       = [(DbAutoMigrate table_A, None), (AfterMigrate table_A, None),
          (DbAutoMigrate table_B, None),
          (DbAutoMigrate table_C, Some (Err 2 ''sync failed''))]"
    by (simp add: migrate_calls_def table_A_def table_B_def)
  from p1 p2 m c1 c2 show ?thesis by blast
qed

section \<open>Drop, Truncate and ResetDB\<close>

lemma Drop_body_one_call:
  "fst (Drop_body d t h) = reply d (calls_of h) (DbDropTableIfExists t)
   \<and> calls_of (snd (Drop_body d t h))
       = calls_of h @ [(DbDropTableIfExists t, reply d (calls_of h) (DbDropTableIfExists t))]"
  by (simp add: Drop_body_def invoke_eq Let_def calls_of_append calls_of_Log split: option.splits)

lemma Truncate_body_one_call:
  "fst (Truncate_body d t h) = reply d (calls_of h) (truncate_call d t)
   \<and> calls_of (snd (Truncate_body d t h))
       = calls_of h @ [(truncate_call d t, reply d (calls_of h) (truncate_call d t))]"
  by (simp add: Truncate_body_def truncate_call_def invoke_eq Let_def calls_of_append calls_of_Log
      split: option.splits)

lemma Truncate_part000_body_one_call:
  "fst (Truncate_part000_body d t h) = reply d (calls_of h) (DbDropTableIfExists t)
   \<and> calls_of (snd (Truncate_part000_body d t h))
       = calls_of h @ [(DbDropTableIfExists t, reply d (calls_of h) (DbDropTableIfExists t))]"
  by (simp add: Truncate_part000_body_def invoke_eq Let_def calls_of_append calls_of_Log
      split: option.splits)

text \<open>The three reverse loops, seen through their calls.\<close>

lemma Drop_loop:
  "fst (Drop d tables h)
     = fst (for_range (rev tables) (Drop_body d) (Log Info [(''msg'', S ''running db drop'')] h))
   \<and> calls_of (snd (Drop d tables h))
     = calls_of (snd (for_range (rev tables) (Drop_body d) (Log Info [(''msg'', S ''running db drop'')] h)))"
  by (simp add: Drop_def Let_def reverse_loop_Suc calls_of_Log split: prod.splits option.splits)

lemma Truncate_loop:
  "fst (Truncate d tables h)
     = fst (for_range (rev tables) (Truncate_body d) (Log Info [(''msg'', S ''running db truncate'')] h))
   \<and> calls_of (snd (Truncate d tables h))
     = calls_of (snd (for_range (rev tables) (Truncate_body d) (Log Info [(''msg'', S ''running db truncate'')] h)))"
  by (simp add: Truncate_def Let_def reverse_loop_Suc calls_of_Log split: prod.splits option.splits)

lemma Truncate_part000_loop:
  "fst (Truncate_part000 d tables h)
     = fst (for_range (rev tables) (Truncate_part000_body d) (Log Info [(''msg'', S ''running db truncation'')] h))
   \<and> calls_of (snd (Truncate_part000 d tables h))
     = calls_of (snd (for_range (rev tables) (Truncate_part000_body d) (Log Info [(''msg'', S ''running db truncation'')] h)))"
  by (simp add: Truncate_part000_def Let_def reverse_loop_Suc calls_of_Log split: prod.splits option.splits)

lemma Drop_None:
  assumes "fst (Drop d tables h) = None"
  shows "calls_of (snd (Drop d tables h))
           = calls_of h @ map (\<lambda>t. (DbDropTableIfExists t, None)) (rev tables)"
  using one_call_loop_None [of "Drop_body d" d DbDropTableIfExists "rev tables"
          "Log Info [(''msg'', S ''running db drop'')] h", OF Drop_body_one_call]
    assms Drop_loop [of d tables h]
  by (simp add: calls_of_Log)

lemma Drop_fails:
  assumes "fst (Drop d post h) = None"
    and "reply d (calls_of h @ map (\<lambda>t. (DbDropTableIfExists t, None)) (rev post))
           (DbDropTableIfExists c) = Some e"
  shows "fst (Drop d (pre @ c # post) h) = Some e
       \<and> calls_of (snd (Drop d (pre @ c # post) h))
           = calls_of h @ map (\<lambda>t. (DbDropTableIfExists t, None)) (rev post)
               @ [(DbDropTableIfExists c, Some e)]"
  using one_call_loop_fails [of "Drop_body d" d DbDropTableIfExists "rev post"
          "Log Info [(''msg'', S ''running db drop'')] h" c e "rev pre", OF Drop_body_one_call]
    assms Drop_loop [of d post h] Drop_loop [of d "pre @ c # post" h]
  by (simp add: calls_of_Log)

lemma Truncate_None:
  assumes "fst (Truncate d tables h) = None"
  shows "calls_of (snd (Truncate d tables h))
           = calls_of h @ map (\<lambda>t. (truncate_call d t, None)) (rev tables)"
  using one_call_loop_None [of "Truncate_body d" d "truncate_call d" "rev tables"
          "Log Info [(''msg'', S ''running db truncate'')] h", OF Truncate_body_one_call]
    assms Truncate_loop [of d tables h]
  by (simp add: calls_of_Log)

lemma Truncate_fails:
  assumes "fst (Truncate d post h) = None"
    and "reply d (calls_of h @ map (\<lambda>t. (truncate_call d t, None)) (rev post))
           (truncate_call d c) = Some e"
  shows "fst (Truncate d (pre @ c # post) h) = Some e
       \<and> calls_of (snd (Truncate d (pre @ c # post) h))
           = calls_of h @ map (\<lambda>t. (truncate_call d t, None)) (rev post)
               @ [(truncate_call d c, Some e)]"
  using one_call_loop_fails [of "Truncate_body d" d "truncate_call d" "rev post"
          "Log Info [(''msg'', S ''running db truncate'')] h" c e "rev pre", OF Truncate_body_one_call]
    assms Truncate_loop [of d post h] Truncate_loop [of d "pre @ c # post" h]
  by (simp add: calls_of_Log)

lemma Drop_prefix:
  "\<exists>k ds. k \<le> length tables \<and> calls_of (snd (Drop d tables h)) = calls_of h @ ds
         \<and> map fst ds = map DbDropTableIfExists (take k (rev tables))"
  using one_call_loop_prefix [of "Drop_body d" d DbDropTableIfExists "rev tables"
          "Log Info [(''msg'', S ''running db drop'')] h", OF Drop_body_one_call]
    Drop_loop [of d tables h]
  by (simp add: calls_of_Log)

lemma AutoMigrate_body_calls:
  "\<exists>cs. calls_of (snd (AutoMigrate_body d t h)) = calls_of h @ cs
        \<and> list_all (\<lambda>x. creation_call (fst x)) cs \<and> synced cs = [t]"
  by (simp add: AutoMigrate_body_def invoke_eq Let_def calls_of_append calls_of_Log
      split: option.splits)

lemma AutoMigrate_loop_calls:
  "\<exists>n cs. n \<le> length ts \<and> calls_of (snd (for_range ts (AutoMigrate_body d) h)) = calls_of h @ cs
         \<and> list_all (\<lambda>x. creation_call (fst x)) cs \<and> synced cs = take n ts"
proof (induction ts arbitrary: h)
  case Nil
  then show ?case by simp
next
  case (Cons t ts)
  obtain r h1 where b: "AutoMigrate_body d t h = (r, h1)" by (cases "AutoMigrate_body d t h")
  from AutoMigrate_body_calls [of d t h] b obtain c1 where
    c1: "calls_of h1 = calls_of h @ c1" "list_all (\<lambda>x. creation_call (fst x)) c1" "synced c1 = [t]"
    by auto
  show ?case
  proof (cases r)
    case None
    from Cons.IH [of h1] obtain n cs where n: "n \<le> length ts"
      and cs: "calls_of (snd (for_range ts (AutoMigrate_body d) h1)) = calls_of h1 @ cs"
        "list_all (\<lambda>x. creation_call (fst x)) cs" "synced cs = take n ts" by blast
    have "Suc n \<le> length (t # ts)
        \<and> calls_of (snd (for_range (t # ts) (AutoMigrate_body d) h)) = calls_of h @ (c1 @ cs)
        \<and> list_all (\<lambda>x. creation_call (fst x)) (c1 @ cs) \<and> synced (c1 @ cs) = take (Suc n) (t # ts)"
      using n cs c1 b None by (simp add: synced_append)
    then show ?thesis by blast
  next
    case (Some e)
    have "Suc 0 \<le> length (t # ts)
        \<and> calls_of (snd (for_range (t # ts) (AutoMigrate_body d) h)) = calls_of h @ c1
        \<and> list_all (\<lambda>x. creation_call (fst x)) c1 \<and> synced c1 = take (Suc 0) (t # ts)"
      using c1 b Some by simp
    then show ?thesis by blast
  qed
qed

lemma AutoMigrate_calls:
  "\<exists>n cs. n \<le> length ts \<and> calls_of (snd (AutoMigrate d ts h)) = calls_of h @ cs
         \<and> list_all (\<lambda>x. creation_call (fst x)) cs \<and> synced cs = take n ts"
  using AutoMigrate_loop_calls [of ts d "Log Info [(''msg'', S ''running db auto-migration...'')] h"]
  by (auto simp: AutoMigrate_def Let_def calls_of_Log split: prod.splits option.splits)

lemma AutoMigrate_None_calls:
  "fst (AutoMigrate d ts h) = None \<Longrightarrow>
   calls_of (snd (AutoMigrate d ts h)) = calls_of h @ concat (map migrate_calls ts)"
  using AutoMigrate_None [of d ts h] AutoMigrate_loop_None [of ts d]
  by (auto simp: calls_of_Log)

lemma ResetDB_short_circuit:
  "fst (Drop d tables h) \<noteq> None \<Longrightarrow> ResetDB d tables h = Drop d tables h"
  by (cases "Drop d tables h") (auto simp: ResetDB_def)

lemma ResetDB_continues:
  "fst (Drop d tables h) = None \<Longrightarrow>
   ResetDB d tables h = AutoMigrate d tables (snd (Drop d tables h))"
  by (cases "Drop d tables h") (auto simp: ResetDB_def)

lemma ResetDB_calls:
  "\<exists>k ds n cs. k \<le> length tables \<and> n \<le> length tables
      \<and> calls_of (snd (ResetDB d tables h)) = calls_of h @ ds @ cs
      \<and> map fst ds = map DbDropTableIfExists (take k (rev tables))
      \<and> list_all (\<lambda>x. creation_call (fst x)) cs
      \<and> synced cs = take n tables
      \<and> (if fst (Drop d tables h) = None
         then k = length tables
              \<and> (fst (ResetDB d tables h) = None \<longrightarrow> cs = concat (map migrate_calls tables))
         else cs = [] \<and> fst (ResetDB d tables h) = fst (Drop d tables h))"
proof (cases "fst (Drop d tables h) = None")
  case True
  let ?h1 = "snd (Drop d tables h)"
  let ?ds = "map (\<lambda>t. (DbDropTableIfExists t, None :: error option)) (rev tables)"
  have d1: "calls_of ?h1 = calls_of h @ ?ds" by (rule Drop_None [OF True])
  from AutoMigrate_calls [of tables d ?h1] obtain n cs where n: "n \<le> length tables"
    and cs: "calls_of (snd (AutoMigrate d tables ?h1)) = calls_of ?h1 @ cs"
      "list_all (\<lambda>x. creation_call (fst x)) cs" "synced cs = take n tables" by blast
  have ok: "fst (ResetDB d tables h) = None \<longrightarrow> cs = concat (map migrate_calls tables)"
    using AutoMigrate_None_calls [of d tables ?h1] cs(1) ResetDB_continues [OF True] by auto
  have "length tables \<le> length tables \<and> n \<le> length tables
      \<and> calls_of (snd (ResetDB d tables h)) = calls_of h @ ?ds @ cs
      \<and> map fst ?ds = map DbDropTableIfExists (take (length tables) (rev tables))
      \<and> list_all (\<lambda>x. creation_call (fst x)) cs
      \<and> synced cs = take n tables
      \<and> (if fst (Drop d tables h) = None
         then length tables = length tables
              \<and> (fst (ResetDB d tables h) = None \<longrightarrow> cs = concat (map migrate_calls tables))
         else cs = [] \<and> fst (ResetDB d tables h) = fst (Drop d tables h))"
    using n cs d1 ok True ResetDB_continues [OF True] by (simp add: comp_def)
  then show ?thesis by blast
next
  case False
  from Drop_prefix [of tables d h] obtain k ds where k: "k \<le> length tables"
    and ds: "calls_of (snd (Drop d tables h)) = calls_of h @ ds"
      "map fst ds = map DbDropTableIfExists (take k (rev tables))" by blast
  have "k \<le> length tables \<and> 0 \<le> length tables
      \<and> calls_of (snd (ResetDB d tables h)) = calls_of h @ ds @ []
      \<and> map fst ds = map DbDropTableIfExists (take k (rev tables))
      \<and> list_all (\<lambda>x. creation_call (fst x)) []
      \<and> synced [] = take 0 tables
      \<and> (if fst (Drop d tables h) = None
         then k = length tables
              \<and> (fst (ResetDB d tables h) = None \<longrightarrow> [] = concat (map migrate_calls tables))
         else [] = [] \<and> fst (ResetDB d tables h) = fst (Drop d tables h))"
    using k ds False ResetDB_short_circuit [OF False] by auto
  then show ?thesis by blast
qed

text \<open>
  C5. \<open>Drop\<close> and \<open>Truncate\<close> call their operation on the tables in reverse list order:
  when nothing fails the calls are those for the reversed list, and when the tables
  behind \<open>c\<close> are done without error and the call for \<open>c\<close> fails with \<open>e\<close>, that call
  is the last one and \<open>e\<close> is returned. The calls of \<open>ResetDB\<close> are destruction calls
  for an initial part of the reversed list followed by creation calls only, whose
  schema syncs are an initial part of the list in list order; all destruction calls
  are made before the first creation call, and when the destruction fails there is no
  creation call and \<open>ResetDB\<close> returns what \<open>Drop\<close> returned.
\<close>

theorem reverse_destruction_order:
  "(fst (Drop d tables h) = None \<longrightarrow>
      calls_of (snd (Drop d tables h))
        = calls_of h @ map (\<lambda>t. (DbDropTableIfExists t, None)) (rev tables))
   \<and> (fst (Drop d post h) = None
       \<and> reply d (calls_of h @ map (\<lambda>t. (DbDropTableIfExists t, None)) (rev post))
            (DbDropTableIfExists c) = Some e \<longrightarrow>
      fst (Drop d (pre @ c # post) h) = Some e
      \<and> calls_of (snd (Drop d (pre @ c # post) h))
          = calls_of h @ map (\<lambda>t. (DbDropTableIfExists t, None)) (rev post)
              @ [(DbDropTableIfExists c, Some e)])
   \<and> (fst (Truncate d tables h) = None \<longrightarrow>
      calls_of (snd (Truncate d tables h))
        = calls_of h @ map (\<lambda>t. (truncate_call d t, None)) (rev tables))
   \<and> (fst (Truncate d post h) = None
       \<and> reply d (calls_of h @ map (\<lambda>t. (truncate_call d t, None)) (rev post))
            (truncate_call d c) = Some e \<longrightarrow>
      fst (Truncate d (pre @ c # post) h) = Some e
      \<and> calls_of (snd (Truncate d (pre @ c # post) h))
          = calls_of h @ map (\<lambda>t. (truncate_call d t, None)) (rev post)
              @ [(truncate_call d c, Some e)])
   \<and> (\<exists>k ds n cs. k \<le> length tables \<and> n \<le> length tables
        \<and> calls_of (snd (ResetDB d tables h)) = calls_of h @ ds @ cs
        \<and> map fst ds = map DbDropTableIfExists (take k (rev tables))
        \<and> list_all (\<lambda>x. creation_call (fst x)) cs
        \<and> synced cs = take n tables
        \<and> (if fst (Drop d tables h) = None
           then k = length tables
                \<and> (fst (ResetDB d tables h) = None \<longrightarrow> cs = concat (map migrate_calls tables))
           else cs = [] \<and> fst (ResetDB d tables h) = fst (Drop d tables h)))"
  using Drop_None [of d tables h] Drop_fails [of d post h c e pre]
    Truncate_None [of d tables h] Truncate_fails [of d post h c e pre]
    ResetDB_calls [of tables d h]
  by blast

text \<open>
  The list \<open>[A, B, C]\<close>: the calls are made for \<open>C\<close>, \<open>B\<close>, \<open>A\<close>, and stop at \<open>B\<close> when
  the call for \<open>B\<close> fails; \<open>ResetDB\<close> on \<open>[A, B]\<close>.
\<close>

theorem reverse_destruction_order_witness:
  "fst (Drop db_ok [table_A, table_B, table_C] []) = None
   \<and> calls_of (snd (Drop db_ok [table_A, table_B, table_C] []))
       = [(DbDropTableIfExists table_C, None), (DbDropTableIfExists table_B, None),
          (DbDropTableIfExists table_A, None)]
   \<and> fst (Drop (db_failing (DbDropTableIfExists table_B) (Err 3 ''drop failed'')) [table_C] []) = None
   \<and> fst (Drop (db_failing (DbDropTableIfExists table_B) (Err 3 ''drop failed''))
            [table_A, table_B, table_C] []) = Some (Err 3 ''drop failed'')
   \<and> calls_of (snd (Drop (db_failing (DbDropTableIfExists table_B) (Err 3 ''drop failed''))
            [table_A, table_B, table_C] []))
       = [(DbDropTableIfExists table_C, None),
          (DbDropTableIfExists table_B, Some (Err 3 ''drop failed''))]
   \<and> fst (Truncate db_ok [table_A, table_B, table_C] []) = None
   \<and> calls_of (snd (Truncate db_ok [table_A, table_B, table_C] []))
       = [(truncate_call db_ok table_C, None), (truncate_call db_ok table_B, None),
          (truncate_call db_ok table_A, None)]
   \<and> fst (Truncate (db_failing (truncate_call db_ok table_B) (Err 4 ''truncate failed'')) [table_C] []) = None
   \<and> fst (Truncate (db_failing (truncate_call db_ok table_B) (Err 4 ''truncate failed''))
            [table_A, table_B, table_C] []) = Some (Err 4 ''truncate failed'')
   \<and> calls_of (snd (Truncate (db_failing (truncate_call db_ok table_B) (Err 4 ''truncate failed''))
            [table_A, table_B, table_C] []))
       = [(truncate_call db_ok table_C, None),
          (truncate_call db_ok table_B, Some (Err 4 ''truncate failed''))]
   \<and> fst (ResetDB db_ok [table_A, table_B] []) = None
   \<and> calls_of (snd (ResetDB db_ok [table_A, table_B] []))
       = [(DbDropTableIfExists table_B, None), (DbDropTableIfExists table_A, None),
          (DbAutoMigrate table_A, None), (AfterMigrate table_A, None),
          (DbAutoMigrate table_B, None)]"
proof -
  let ?d3 = "db_failing (DbDropTableIfExists table_B) (Err 3 ''drop failed'')"
  let ?d4 = "db_failing (truncate_call db_ok table_B) (Err 4 ''truncate failed'')"
  have tc: "truncate_call ?d4 = truncate_call db_ok"
    by (rule ext) (simp add: truncate_call_def db_failing_def db_ok_def)
  have a: "fst (Drop db_ok [table_A, table_B, table_C] []) = None"
    by (simp add: run_defs truncate_call_def)
  have b: "fst (Drop ?d3 [table_C] []) = None
       \<and> reply ?d3 (calls_of [] @ map (\<lambda>t. (DbDropTableIfExists t, None)) (rev [table_C]))
            (DbDropTableIfExists table_B) = Some (Err 3 ''drop failed'')"
    by (simp add: run_defs truncate_call_def)
  have c: "fst (Truncate db_ok [table_A, table_B, table_C] []) = None"
    by (simp add: run_defs truncate_call_def)
  have d: "fst (Truncate ?d4 [table_C] []) = None
       \<and> reply ?d4 (calls_of [] @ map (\<lambda>t. (truncate_call ?d4 t, None)) (rev [table_C]))
            (truncate_call ?d4 table_B) = Some (Err 4 ''truncate failed'')"
    by (simp add: run_defs truncate_call_def)
  have e: "fst (ResetDB db_ok [table_A, table_B] []) = None
   \<and> calls_of (snd (ResetDB db_ok [table_A, table_B] []))
       = [(DbDropTableIfExists table_B, None), (DbDropTableIfExists table_A, None),
          (DbAutoMigrate table_A, None), (AfterMigrate table_A, None),
          (DbAutoMigrate table_B, None)]"
    by (simp add: run_defs truncate_call_def)
  note t1 = reverse_destruction_order [of db_ok "[table_A, table_B, table_C]" "[]",
      THEN conjunct1, rule_format, OF a]
  note t2 = reverse_destruction_order [of ?d3 _ "[]" "[table_C]" table_B "Err 3 ''drop failed''" "[table_A]",
      THEN conjunct2, THEN conjunct1, rule_format, OF b]
  note t3 = reverse_destruction_order [of db_ok "[table_A, table_B, table_C]" "[]",
      THEN conjunct2, THEN conjunct2, THEN conjunct1, rule_format, OF c]
  note t4 = reverse_destruction_order [of ?d4 _ "[]" "[table_C]" table_B "Err 4 ''truncate failed''" "[table_A]",
      THEN conjunct2, THEN conjunct2, THEN conjunct2, THEN conjunct1, rule_format, OF d]
  from a b c d e t1 t2 t3 t4 show ?thesis by (simp add: tc)
qed

section \<open>The two migration files compared\<close>

lemma AutoMigrate_body_sim:
  "calls_of h = calls_of g \<Longrightarrow>
   fst (AutoMigrate_body d t h) = fst (AutoMigrate_body d t g)
   \<and> calls_of (snd (AutoMigrate_body d t h)) = calls_of (snd (AutoMigrate_body d t g))"
  by (simp add: AutoMigrate_body_def invoke_eq Let_def calls_of_append calls_of_Log
      split: option.splits)

lemma AutoMigrate_sim:
  assumes "calls_of h = calls_of g"
  shows "fst (AutoMigrate d ts h) = fst (AutoMigrate d ts g)
       \<and> calls_of (snd (AutoMigrate d ts h)) = calls_of (snd (AutoMigrate d ts g))"
proof -
  let ?h0 = "Log Info [(''msg'', S ''running db auto-migration...'')] h"
  let ?g0 = "Log Info [(''msg'', S ''running db auto-migration...'')] g"
  have "calls_of ?h0 = calls_of ?g0" using assms by (simp add: calls_of_Log)
  from for_range_sim [of "AutoMigrate_body d" "AutoMigrate_body d", OF AutoMigrate_body_sim this, of ts]
  show ?thesis
    by (auto simp: AutoMigrate_def Let_def calls_of_Log split: prod.splits option.splits)
qed

lemma Drop_Truncate_part000_sim:
  "fst (Drop d tables h) = fst (Truncate_part000 d tables h)
   \<and> calls_of (snd (Drop d tables h)) = calls_of (snd (Truncate_part000 d tables h))"
proof -
  have sim: "\<And>x h g. calls_of h = calls_of g \<Longrightarrow>
                  fst (Drop_body d x h) = fst (Truncate_part000_body d x g)
                  \<and> calls_of (snd (Drop_body d x h)) = calls_of (snd (Truncate_part000_body d x g))"
    by (simp add: Drop_body_one_call Truncate_part000_body_one_call)
  have "calls_of (Log Info [(''msg'', S ''running db drop'')] h)
          = calls_of (Log Info [(''msg'', S ''running db truncation'')] h)"
    by (simp add: calls_of_Log)
  from for_range_sim [of "Drop_body d" "Truncate_part000_body d", OF sim this, of "rev tables"]
  show ?thesis
    using Drop_loop [of d tables h] Truncate_part000_loop [of d tables h] by simp
qed

lemma ResetDB_variants_agree:
  "fst (ResetDB d tables h) = fst (ResetDB_part000 d tables h)
   \<and> calls_of (snd (ResetDB d tables h)) = calls_of (snd (ResetDB_part000 d tables h))"
proof -
  obtain r h1 where a: "Drop d tables h = (r, h1)" by (cases "Drop d tables h")
  obtain r' g1 where b: "Truncate_part000 d tables h = (r', g1)"
    by (cases "Truncate_part000 d tables h")
  from Drop_Truncate_part000_sim [of d tables h] a b have r: "r' = r" and c: "calls_of h1 = calls_of g1"
    by simp_all
  show ?thesis
  proof (cases r)
    case None
    with a b r AutoMigrate_sim [OF c, of d tables] show ?thesis
      by (simp add: ResetDB_def ResetDB_part000_def)
  next
    case (Some e)
    with a b r c show ?thesis by (simp add: ResetDB_def ResetDB_part000_def)
  qed
qed

lemma Truncate_first_call:
  assumes "tables \<noteq> []"
  shows "\<exists>r cs. calls_of (snd (Truncate d tables h))
                 = calls_of h @ (truncate_call d (last tables), r) # cs"
proof -
  from assms obtain ts where rv: "rev tables = last tables # ts"
    by (cases tables rule: rev_cases) auto
  from one_call_loop_first [of "Truncate_body d" d "truncate_call d" "last tables" ts
      "Log Info [(''msg'', S ''running db truncate'')] h", OF Truncate_body_one_call]
  show ?thesis using Truncate_loop [of d tables h] rv by (simp add: calls_of_Log)
qed

lemma Truncate_part000_first_call:
  assumes "tables \<noteq> []"
  shows "\<exists>r cs. calls_of (snd (Truncate_part000 d tables h))
                 = calls_of h @ (DbDropTableIfExists (last tables), r) # cs"
proof -
  from assms obtain ts where rv: "rev tables = last tables # ts"
    by (cases tables rule: rev_cases) auto
  from one_call_loop_first [of "Truncate_part000_body d" d DbDropTableIfExists "last tables" ts
      "Log Info [(''msg'', S ''running db truncation'')] h", OF Truncate_part000_body_one_call]
  show ?thesis using Truncate_part000_loop [of d tables h] rv by (simp add: calls_of_Log)
qed

lemma Truncate_variants_differ:
  assumes "tables \<noteq> []"
  shows "calls_of (snd (Truncate d tables h)) \<noteq> calls_of (snd (Truncate_part000 d tables h))"
proof -
  from Truncate_first_call [OF assms, of d h] obtain r cs where
    a: "calls_of (snd (Truncate d tables h)) = calls_of h @ (truncate_call d (last tables), r) # cs"
    by blast
  from Truncate_part000_first_call [OF assms, of d h] obtain r' cs' where
    b: "calls_of (snd (Truncate_part000 d tables h))
          = calls_of h @ (DbDropTableIfExists (last tables), r') # cs'"
    by blast
  show ?thesis unfolding a b by (simp add: truncate_call_def)
qed

text \<open>
  C7. The two definitions of \<open>Truncate\<close> are not equivalent: on a
  non-empty list the one of migrate.go starts by executing a \<open>TRUNCATE TABLE\<close>
  statement for the last table, the one of the second file by calling
  drop-table-if-exists for it. The two definitions of \<open>ResetDB\<close> do not differ in that
  way: the one of migrate.go calls \<open>Drop\<close>, the one of the second file calls its
  \<open>Truncate\<close>, and both of these drop; the two \<open>ResetDB\<close> make the same calls in the
  same order, get the same answers and return the same result.
\<close>

theorem ResetDB_variants_both_drop:
  "(tables \<noteq> [] \<longrightarrow>
      (\<exists>r cs. calls_of (snd (Truncate d tables h))
                 = calls_of h @ (truncate_call d (last tables), r) # cs)
      \<and> (\<exists>r cs. calls_of (snd (Truncate_part000 d tables h))
                 = calls_of h @ (DbDropTableIfExists (last tables), r) # cs)
      \<and> calls_of (snd (Truncate d tables h)) \<noteq> calls_of (snd (Truncate_part000 d tables h)))
   \<and> fst (ResetDB d tables h) = fst (ResetDB_part000 d tables h)
   \<and> calls_of (snd (ResetDB d tables h)) = calls_of (snd (ResetDB_part000 d tables h))"
  using Truncate_first_call [of tables d h] Truncate_part000_first_call [of tables d h]
    Truncate_variants_differ [of tables d h] ResetDB_variants_agree [of d tables h]
  by blast

theorem ResetDB_variants_both_drop_witness:
  "[table_A, table_B] \<noteq> []
   \<and> calls_of (snd (Truncate db_ok [table_A, table_B] []))
       = [(truncate_call db_ok table_B, None), (truncate_call db_ok table_A, None)]
   \<and> calls_of (snd (Truncate_part000 db_ok [table_A, table_B] []))
       = [(DbDropTableIfExists table_B, None), (DbDropTableIfExists table_A, None)]
   \<and> calls_of (snd (Truncate db_ok [table_A, table_B] []))
       \<noteq> calls_of (snd (Truncate_part000 db_ok [table_A, table_B] []))
   \<and> fst (ResetDB db_ok [table_A, table_B] []) = fst (ResetDB_part000 db_ok [table_A, table_B] [])"
proof -
  have ne: "[table_A, table_B] \<noteq> []" by simp
  note t = ResetDB_variants_both_drop [of "[table_A, table_B]" db_ok "[]"]
  from t [THEN conjunct1, rule_format, OF ne] have
    d: "calls_of (snd (Truncate db_ok [table_A, table_B] []))
       \<noteq> calls_of (snd (Truncate_part000 db_ok [table_A, table_B] []))" by blast
  have a: "calls_of (snd (Truncate db_ok [table_A, table_B] []))
       = [(truncate_call db_ok table_B, None), (truncate_call db_ok table_A, None)]"
    by (simp add: run_defs truncate_call_def)
  have b: "calls_of (snd (Truncate_part000 db_ok [table_A, table_B] []))
       = [(DbDropTableIfExists table_B, None), (DbDropTableIfExists table_A, None)]"
    by (simp add: run_defs truncate_call_def)
  from ne a b d t [THEN conjunct2, THEN conjunct1] show ?thesis by blast
qed

text \<open>
  It is not so that one variant of \<open>ResetDB\<close> drops the tables and the other only
  empties them: on \<open>[A, B]\<close> both variants call drop-table-if-exists for \<open>B\<close> and \<open>A\<close>
  and then migrate; neither executes a \<open>TRUNCATE TABLE\<close> statement.
\<close>

theorem ResetDB_variants_counterexample:
  "calls_of (snd (ResetDB db_ok [table_A, table_B] []))
     = [(DbDropTableIfExists table_B, None), (DbDropTableIfExists table_A, None),
        (DbAutoMigrate table_A, None), (AfterMigrate table_A, None),
        (DbAutoMigrate table_B, None)]
   \<and> calls_of (snd (ResetDB_part000 db_ok [table_A, table_B] []))
     = [(DbDropTableIfExists table_B, None), (DbDropTableIfExists table_A, None),
        (DbAutoMigrate table_A, None), (AfterMigrate table_A, None),
        (DbAutoMigrate table_B, None)]"
  by (simp add: run_defs)

section \<open>The idempotent helpers\<close>

text \<open>
  C3. Each of \<open>EnsureForeignKey\<close>, \<open>EnsureConstraint\<close> and \<open>EnsureIndex\<close> makes one call.
  When the call succeeds the helper returns nil and logs nothing. When it fails with an
  error whose text equals the helper's expected message, the helper returns nil and
  writes one log line; when the text is anything else, the helper returns that error
  and logs nothing.
\<close>

theorem Ensure_swallows_only_already_exists:
  "(reply d (calls_of h) (DbAddForeignKey model column table onDelete onUpdate) = None \<longrightarrow>
      EnsureForeignKey d model sourceTable column table onDelete onUpdate h
        = (None, h @ [Called (DbAddForeignKey model column table onDelete onUpdate) None]))
   \<and> (reply d (calls_of h) (DbAddForeignKey model column table onDelete onUpdate) = Some err
       \<and> Error err = fk_expectedMsg sourceTable column table \<longrightarrow>
      EnsureForeignKey d model sourceTable column table onDelete onUpdate h
        = (None, h @ [Called (DbAddForeignKey model column table onDelete onUpdate) (Some err),
                      ScopeLog (''Foreign-key constraint appears to already exist: '' @ Error err)]))
   \<and> (reply d (calls_of h) (DbAddForeignKey model column table onDelete onUpdate) = Some err
       \<and> Error err \<noteq> fk_expectedMsg sourceTable column table \<longrightarrow>
      EnsureForeignKey d model sourceTable column table onDelete onUpdate h
        = (Some err, h @ [Called (DbAddForeignKey model column table onDelete onUpdate) (Some err)]))
   \<and> (reply d (calls_of h) (DbExec (constraint_query (NewScope d model) name constraint)) = None \<longrightarrow>
      EnsureConstraint d model name constraint h
        = (None, h @ [Called (DbExec (constraint_query (NewScope d model) name constraint)) None]))
   \<and> (reply d (calls_of h) (DbExec (constraint_query (NewScope d model) name constraint)) = Some err
       \<and> Error err = constraint_expectedMsg name (TableName (NewScope d model)) \<longrightarrow>
      EnsureConstraint d model name constraint h
        = (None, h @ [Called (DbExec (constraint_query (NewScope d model) name constraint)) (Some err),
                      ScopeLog (''Constraint appears to already exist: '' @ Error err)]))
   \<and> (reply d (calls_of h) (DbExec (constraint_query (NewScope d model) name constraint)) = Some err
       \<and> Error err \<noteq> constraint_expectedMsg name (TableName (NewScope d model)) \<longrightarrow>
      EnsureConstraint d model name constraint h
        = (Some err, h @ [Called (DbExec (constraint_query (NewScope d model) name constraint)) (Some err)]))
   \<and> (reply d (calls_of h) (DbExec (index_query (NewScope d model) name constraint unique)) = None \<longrightarrow>
      EnsureIndex d model name constraint unique h
        = (None, h @ [Called (DbExec (index_query (NewScope d model) name constraint unique)) None]))
   \<and> (reply d (calls_of h) (DbExec (index_query (NewScope d model) name constraint unique)) = Some err
       \<and> Error err = index_expectedMsg name \<longrightarrow>
      EnsureIndex d model name constraint unique h
        = (None, h @ [Called (DbExec (index_query (NewScope d model) name constraint unique)) (Some err),
                      ScopeLog (''Index appears to already exist: '' @ Error err)]))
   \<and> (reply d (calls_of h) (DbExec (index_query (NewScope d model) name constraint unique)) = Some err
       \<and> Error err \<noteq> index_expectedMsg name \<longrightarrow>
      EnsureIndex d model name constraint unique h
        = (Some err, h @ [Called (DbExec (index_query (NewScope d model) name constraint unique)) (Some err)]))"
  by (simp add: EnsureForeignKey_def EnsureConstraint_def EnsureIndex_def invoke_eq Let_def)

text \<open>Each of the nine cases at a concrete database.\<close>

lemmas ensure_defs = db_ok_def db_failing_def quoting_scope_def table_A_def users_fk_def
  fk_exists_def denied_def orders_check_def check_exists_def index_exists_def
  constraint_query_def index_query_def constraint_expectedMsg_def index_expectedMsg_def
  fk_expectedMsg_def keyMatcher_at_def open_paren_def

theorem Ensure_swallows_only_already_exists_witness:
  "EnsureForeignKey db_ok table_A ''orders'' ''user_id'' ''users (id)'' ''CASCADE'' ''CASCADE'' []
     = (None, [Called users_fk None])
   \<and> EnsureForeignKey (db_failing users_fk fk_exists) table_A ''orders'' ''user_id'' ''users (id)''
        ''CASCADE'' ''CASCADE'' []
     = (None, [Called users_fk (Some fk_exists),
               ScopeLog (''Foreign-key constraint appears to already exist: '' @ Error fk_exists)])
   \<and> EnsureForeignKey (db_failing users_fk denied) table_A ''orders'' ''user_id'' ''users (id)''
        ''CASCADE'' ''CASCADE'' []
     = (Some denied, [Called users_fk (Some denied)])
   \<and> EnsureConstraint db_ok table_A ''total_positive'' orders_check []
     = (None, [Called (DbExec (constraint_query (quoting_scope table_A) ''total_positive'' orders_check)) None])
   \<and> EnsureConstraint
        (db_failing (DbExec (constraint_query (quoting_scope table_A) ''total_positive'' orders_check)) check_exists)
        table_A ''total_positive'' orders_check []
     = (None, [Called (DbExec (constraint_query (quoting_scope table_A) ''total_positive'' orders_check))
                 (Some check_exists),
               ScopeLog (''Constraint appears to already exist: '' @ Error check_exists)])
   \<and> EnsureConstraint
        (db_failing (DbExec (constraint_query (quoting_scope table_A) ''total_positive'' orders_check)) denied)
        table_A ''total_positive'' orders_check []
     = (Some denied, [Called (DbExec (constraint_query (quoting_scope table_A) ''total_positive'' orders_check))
                        (Some denied)])
   \<and> EnsureIndex db_ok table_A ''idx_a_name'' ''a (name)'' False []
     = (None, [Called (DbExec (index_query (quoting_scope table_A) ''idx_a_name'' ''a (name)'' False)) None])
   \<and> EnsureIndex
        (db_failing (DbExec (index_query (quoting_scope table_A) ''idx_a_name'' ''a (name)'' True)) index_exists)
        table_A ''idx_a_name'' ''a (name)'' True []
     = (None, [Called (DbExec (index_query (quoting_scope table_A) ''idx_a_name'' ''a (name)'' True))
                 (Some index_exists),
               ScopeLog (''Index appears to already exist: '' @ Error index_exists)])
   \<and> EnsureIndex
        (db_failing (DbExec (index_query (quoting_scope table_A) ''idx_a_name'' ''a (name)'' True)) denied)
        table_A ''idx_a_name'' ''a (name)'' True []
     = (Some denied, [Called (DbExec (index_query (quoting_scope table_A) ''idx_a_name'' ''a (name)'' True))
                        (Some denied)])"
proof -
  let ?cq = "DbExec (constraint_query (quoting_scope table_A) ''total_positive'' orders_check)"
  let ?iq = "DbExec (index_query (quoting_scope table_A) ''idx_a_name'' ''a (name)'' True)"
  note t = Ensure_swallows_only_already_exists
  note fk1 = t [where d = "db_ok" and h = "[]" and model = table_A and column = "''user_id''" and table = "''users (id)''" and onDelete = "''CASCADE''"
      and onUpdate = "''CASCADE''" and sourceTable = "''orders''",
      THEN conjunct1]
  note fk2 = t [where d = "db_failing users_fk fk_exists" and h = "[]" and model = table_A and column = "''user_id''" and table = "''users (id)''" and onDelete = "''CASCADE''"
      and onUpdate = "''CASCADE''" and sourceTable = "''orders''" and err = fk_exists,
      THEN conjunct2, THEN conjunct1]
  note fk3 = t [where d = "db_failing users_fk denied" and h = "[]" and model = table_A and column = "''user_id''" and table = "''users (id)''" and onDelete = "''CASCADE''"
      and onUpdate = "''CASCADE''" and sourceTable = "''orders''" and err = denied,
      THEN conjunct2, THEN conjunct2, THEN conjunct1]
  note c1 = t [where d = "db_ok" and h = "[]" and model = table_A and name = "''total_positive''" and constraint = orders_check,
      THEN conjunct2, THEN conjunct2, THEN conjunct2, THEN conjunct1]
  note c2 = t [where d = "db_failing ?cq check_exists" and h = "[]" and model = table_A and name = "''total_positive''" and constraint = orders_check and err = check_exists,
      THEN conjunct2, THEN conjunct2, THEN conjunct2, THEN conjunct2, THEN conjunct1]
  note c3 = t [where d = "db_failing ?cq denied" and h = "[]" and model = table_A and name = "''total_positive''" and constraint = orders_check and err = denied,
      THEN conjunct2, THEN conjunct2, THEN conjunct2, THEN conjunct2, THEN conjunct2, THEN conjunct1]
  note i1 = t [where d = "db_ok" and h = "[]" and model = table_A and name = "''idx_a_name''" and constraint = "''a (name)''" and unique = False,
      THEN conjunct2, THEN conjunct2, THEN conjunct2, THEN conjunct2, THEN conjunct2, THEN conjunct2, THEN conjunct1]
  note i2 = t [where d = "db_failing ?iq index_exists" and h = "[]" and model = table_A and name = "''idx_a_name''" and constraint = "''a (name)''" and unique = True and err = index_exists,
      THEN conjunct2, THEN conjunct2, THEN conjunct2, THEN conjunct2, THEN conjunct2, THEN conjunct2, THEN conjunct2, THEN conjunct1]
  note i3 = t [where d = "db_failing ?iq denied" and h = "[]" and model = table_A and name = "''idx_a_name''" and constraint = "''a (name)''" and unique = True and err = denied,
      THEN conjunct2, THEN conjunct2, THEN conjunct2, THEN conjunct2, THEN conjunct2, THEN conjunct2, THEN conjunct2, THEN conjunct2]
  from fk1 fk2 fk3 c1 c2 c3 i1 i2 i3 show ?thesis
    by (simp add: ensure_defs)
qed

text \<open>
  C9. Whatever the model, the index definition and the unique flag are, a failed
  execution makes \<open>EnsureIndex\<close> return nil exactly when the error's text is
  \<open>pq: relation "<name>" already exists\<close>, a message built from the name alone.
\<close>

theorem EnsureIndex_name_only:
  \<open>reply d (calls_of h) (DbExec (index_query (NewScope d model) name constraint unique)) = Some err
   \<longrightarrow> (fst (EnsureIndex d model name constraint unique h) = None)
        = (Error err = ''pq: relation "'' @ name @ ''" already exists'')\<close>
  by (simp add: EnsureIndex_def invoke_eq Let_def index_expectedMsg_def)

text \<open>The same error text swallowed for two tables, two definitions and both flags.\<close>

theorem EnsureIndex_name_only_witness:
  "fst (EnsureIndex
          (db_failing (DbExec (index_query (quoting_scope table_A) ''idx_a_name'' ''a (name)'' True)) index_exists)
          table_A ''idx_a_name'' ''a (name)'' True []) = None
   \<and> fst (EnsureIndex
          (db_failing (DbExec (index_query (quoting_scope table_B) ''idx_a_name'' ''b (id, name)'' False)) index_exists)
          table_B ''idx_a_name'' ''b (id, name)'' False []) = None"
  using EnsureIndex_name_only [of
      "db_failing (DbExec (index_query (quoting_scope table_A) ''idx_a_name'' ''a (name)'' True)) index_exists"
      "[]" table_A "''idx_a_name''" "''a (name)''" True index_exists]
    EnsureIndex_name_only [of
      "db_failing (DbExec (index_query (quoting_scope table_B) ''idx_a_name'' ''b (id, name)'' False)) index_exists"
      "[]" table_B "''idx_a_name''" "''b (id, name)''" False index_exists]
  by (simp add: db_failing_def index_exists_def)

lemma keyMatcher_at_column:
  assumes "c \<noteq> []" "CHR '')'' \<notin> set c"
  shows "keyMatcher_at ('' ('' @ c @ '')'') = Some (c, [])"
proof -
  have t: "takeWhile (\<lambda>x. x \<noteq> CHR '')'') (c @ '')'') = c"
    using assms(2) by (induction c) auto
  have d: "dropWhile (\<lambda>x. x \<noteq> CHR '')'') (c @ '')'') = '')''"
    using assms(2) by (induction c) auto
  show ?thesis using assms(1) by (simp add: keyMatcher_at_def open_paren_def t d)
qed

lemma keyMatcher_at_table:
  assumes "a \<noteq> CHR ''(''" "CHR ''('' \<notin> set t"
  shows "keyMatcher_at (a # t @ '' ('' @ c @ '')'') = None"
  using assms by (cases t) (auto simp: keyMatcher_at_def open_paren_def)

lemma keyMatcher_table_column:
  assumes "CHR ''('' \<notin> set t" "c \<noteq> []" "CHR '')'' \<notin> set c"
  shows "keyMatcher_ReplaceAllString (t @ '' ('' @ c @ '')'') = t @ ''_'' @ c"
  using assms(1)
proof (induction t)
  case Nil
  from keyMatcher_at_column [OF assms(2,3)] show ?case by simp
next
  case (Cons a t)
  then have "keyMatcher_at (a # t @ '' ('' @ c @ '')'') = None"
    by (intro keyMatcher_at_table) auto
  with Cons show ?case by simp
qed

text \<open>
  C6. For a description \<open>table (column)\<close>, that is a table name without an opening
  parenthesis, a space, and in parentheses a non-empty column reference without a
  closing parenthesis, \<open>keyMatcher\<close> turns the description into \<open>table_column\<close>; the
  expected message of \<open>EnsureForeignKey\<close> is
  \<open>pq: constraint "<sourceTable>_<column>_<table>_<column ref>_foreign" for relation
  "<sourceTable>" already exists\<close>, and a failed call is swallowed exactly when the
  error's text is that message.
\<close>

theorem foreign_key_expected_message:
  assumes "CHR ''('' \<notin> set table_name" and "column_ref \<noteq> []" and "CHR '')'' \<notin> set column_ref"
  shows \<open>keyMatcher_ReplaceAllString (table_name @ '' ('' @ column_ref @ '')'')
           = table_name @ ''_'' @ column_ref
       \<and> fk_expectedMsg sourceTable column (table_name @ '' ('' @ column_ref @ '')'')
           = ''pq: constraint "'' @ sourceTable @ ''_'' @ column @ ''_'' @ table_name @ ''_''
               @ column_ref @ ''_foreign" for relation "'' @ sourceTable @ ''" already exists''
       \<and> (reply d (calls_of h)
             (DbAddForeignKey model column (table_name @ '' ('' @ column_ref @ '')'') onDelete onUpdate)
             = Some err \<longrightarrow>
           (fst (EnsureForeignKey d model sourceTable column
                   (table_name @ '' ('' @ column_ref @ '')'') onDelete onUpdate h) = None)
           = (Error err
               = ''pq: constraint "'' @ sourceTable @ ''_'' @ column @ ''_'' @ table_name @ ''_''
                   @ column_ref @ ''_foreign" for relation "'' @ sourceTable @ ''" already exists''))\<close>
proof -
  define T where "T = table_name @ '' ('' @ column_ref @ '')''"
  have r: "keyMatcher_ReplaceAllString T = table_name @ ''_'' @ column_ref"
    unfolding T_def using assms by (rule keyMatcher_table_column)
  have m: \<open>fk_expectedMsg sourceTable column T
           = ''pq: constraint "'' @ sourceTable @ ''_'' @ column @ ''_'' @ table_name @ ''_''
               @ column_ref @ ''_foreign" for relation "'' @ sourceTable @ ''" already exists''\<close>
    unfolding fk_expectedMsg_def Let_def r by simp
  have e: "(fst (EnsureForeignKey d model sourceTable column T onDelete onUpdate h) = None)
             = (Error err = fk_expectedMsg sourceTable column T)"
    if "reply d (calls_of h) (DbAddForeignKey model column T onDelete onUpdate) = Some err"
    using that by (simp add: EnsureForeignKey_def invoke_eq)
  show ?thesis
  proof (intro conjI impI)
    show "keyMatcher_ReplaceAllString (table_name @ '' ('' @ column_ref @ '')'')
            = table_name @ ''_'' @ column_ref"
      using r unfolding T_def .
    show \<open>fk_expectedMsg sourceTable column (table_name @ '' ('' @ column_ref @ '')'')
           = ''pq: constraint "'' @ sourceTable @ ''_'' @ column @ ''_'' @ table_name @ ''_''
               @ column_ref @ ''_foreign" for relation "'' @ sourceTable @ ''" already exists''\<close>
      using m unfolding T_def .
    assume "reply d (calls_of h)
             (DbAddForeignKey model column (table_name @ '' ('' @ column_ref @ '')'') onDelete onUpdate)
             = Some err"
    then have "(fst (EnsureForeignKey d model sourceTable column T onDelete onUpdate h) = None)
             = (Error err = fk_expectedMsg sourceTable column T)"
      unfolding T_def [symmetric] by (rule e)
    then show \<open>(fst (EnsureForeignKey d model sourceTable column
                   (table_name @ '' ('' @ column_ref @ '')'') onDelete onUpdate h) = None)
           = (Error err
               = ''pq: constraint "'' @ sourceTable @ ''_'' @ column @ ''_'' @ table_name @ ''_''
                   @ column_ref @ ''_foreign" for relation "'' @ sourceTable @ ''" already exists'')\<close>
      unfolding m unfolding T_def .
  qed
qed

text \<open>The description \<open>users (id)\<close> of the source's comment.\<close>

theorem foreign_key_expected_message_witness:
  \<open>CHR ''('' \<notin> set ''users'' \<and> ''id'' \<noteq> [] \<and> CHR '')'' \<notin> set ''id''
   \<and> keyMatcher_ReplaceAllString ''users (id)'' = ''users_id''
   \<and> fk_expectedMsg ''orders'' ''user_id'' ''users (id)''
       = ''pq: constraint "orders_user_id_users_id_foreign" for relation "orders" already exists''
   \<and> reply (db_failing users_fk fk_exists) (calls_of []) users_fk = Some fk_exists
   \<and> fst (EnsureForeignKey (db_failing users_fk fk_exists) table_A ''orders'' ''user_id''
             ''users (id)'' ''CASCADE'' ''CASCADE'' []) = None\<close>
proof -
  have f: "CHR ''('' \<notin> set ''users''" "''id'' \<noteq> []" "CHR '')'' \<notin> set ''id''"
    by simp_all
  have q: "reply (db_failing users_fk fk_exists) (calls_of [])
             (DbAddForeignKey table_A ''user_id'' (''users'' @ '' ('' @ ''id'' @ '')'') ''CASCADE'' ''CASCADE'')
             = Some fk_exists"
    by (simp add: db_failing_def users_fk_def)
  note t = foreign_key_expected_message [OF f, of "''orders''" "''user_id''"
      "db_failing users_fk fk_exists" "[]" table_A "''CASCADE''" "''CASCADE''" fk_exists]
  from t [THEN conjunct2, THEN conjunct2, rule_format, OF q]
  have e: "fst (EnsureForeignKey (db_failing users_fk fk_exists) table_A ''orders'' ''user_id''
             ''users (id)'' ''CASCADE'' ''CASCADE'' []) = None"
    by (simp add: fk_exists_def)
  from t [THEN conjunct1] t [THEN conjunct2, THEN conjunct1] q e f show ?thesis
    by (simp add: users_fk_def)
qed

section \<open>Transact\<close>

lemma calls_of_begun: "calls_of (begun d h) = calls_of h @ [(DbBegin, reply d (calls_of h) DbBegin)]"
  by (simp add: begun_def calls_of_append)

lemma Transact_returns:
  "f (begun d h) = Returns r \<Longrightarrow>
   Transact d format f h =
     (case r of
        Some e \<Rightarrow> (Some e, begun d h @ [Called TxRollback (reply d (calls_of (begun d h)) TxRollback)]
                              @ rollback_log (reply d (calls_of (begun d h)) TxRollback))
      | None \<Rightarrow> (reply d (calls_of (begun d h)) TxCommit,
                 begun d h @ [Called TxCommit (reply d (calls_of (begun d h)) TxCommit)]))"
  by (simp add: Transact_def invoke_eq begun_def rollback_log_def Let_def split: option.splits)

lemma Transact_panics:
  "f (begun d h) = Panics (Some p) \<Longrightarrow>
   Transact d format f h =
     (let err = (case p of ErrorPayload er \<Rightarrow> er | OtherPayload v \<Rightarrow> ErrorString (format v))
      in (Some err, begun d h @ [Println [E err], PrintStack,
                                 Called TxRollback (reply d (calls_of (begun d h)) TxRollback)]
                       @ rollback_log (reply d (calls_of (begun d h)) TxRollback)))"
  by (simp add: Transact_def invoke_eq begun_def rollback_log_def Let_def calls_of_append
      split: option.splits payload.splits)

lemma Transact_nil_panic:
  "f (begun d h) = Panics None \<Longrightarrow>
   Transact d format f h =
     (reply d (calls_of (begun d h)) TxCommit,
      begun d h @ [Called TxCommit (reply d (calls_of (begun d h)) TxCommit)])"
  by (simp add: Transact_def invoke_eq begun_def Let_def)

lemma calls_of_rollback_log: "calls_of (rollback_log r) = []"
  by (simp add: rollback_log_def split: option.splits)

lemma Transact_one_end:
  "\<exists>c r. calls_of (snd (Transact d format f h))
            = calls_of h @ [(DbBegin, reply d (calls_of h) DbBegin), (c, r)]
         \<and> (c = TxCommit \<or> c = TxRollback)"
proof (cases "f (begun d h)")
  case (Returns r)
  show ?thesis
    by (cases r)
       (simp_all add: Transact_returns [of f d h r format, OF Returns] calls_of_append calls_of_begun
          calls_of_rollback_log)
next
  case (Panics r)
  show ?thesis
  proof (cases r)
    case None
    with Panics have "f (begun d h) = Panics None" by simp
    then show ?thesis
      by (simp add: Transact_nil_panic [of f d h format] calls_of_append calls_of_begun)
  next
    case (Some p)
    with Panics have "f (begun d h) = Panics (Some p)" by simp
    then show ?thesis
      by (simp add: Transact_panics [of f d h p format] Let_def calls_of_append calls_of_begun
          calls_of_rollback_log)
  qed
qed

text \<open>
  C1. When the unit of work returns an error \<open>e\<close>, \<open>Transact\<close> rolls back and returns
  exactly \<open>e\<close>; an error of the rollback is logged and not returned. When the unit of
  work returns nil, \<open>Transact\<close> commits once, does not roll back, and returns what the
  commit returned. Whatever the unit of work does, returning or panicking, \<open>Transact\<close>
  makes exactly one call after beginning the transaction, and that call is the commit
  or the rollback.
\<close>

theorem Transact_returning_work:
  "(f (begun d h) = Returns (Some e) \<longrightarrow>
      Transact d format f h
        = (Some e, begun d h @ [Called TxRollback (reply d (calls_of (begun d h)) TxRollback)]
                     @ rollback_log (reply d (calls_of (begun d h)) TxRollback)))
   \<and> (f (begun d h) = Returns None \<longrightarrow>
      Transact d format f h
        = (reply d (calls_of (begun d h)) TxCommit,
           begun d h @ [Called TxCommit (reply d (calls_of (begun d h)) TxCommit)]))
   \<and> (\<exists>c r. calls_of (snd (Transact d format f h))
               = calls_of h @ [(DbBegin, reply d (calls_of h) DbBegin), (c, r)]
            \<and> (c = TxCommit \<or> c = TxRollback))"
  using Transact_returns [of f d h "Some e" format] Transact_returns [of f d h None format]
    Transact_one_end [of d format f h]
  by simp

text \<open>
  A failing unit of work with a rollback that fails and with one that succeeds; a
  succeeding unit of work with a commit that succeeds and with one that fails.
\<close>

lemmas tx_defs = begun_def rollback_log_def db_ok_def db_failing_def
  work_error_def rollback_error_def commit_error_def panic_error_def

theorem Transact_returning_work_witness:
  "Transact (db_failing TxRollback rollback_error) id (\<lambda>_. Returns (Some work_error)) []
     = (Some work_error,
        [Called DbBegin None, Called TxRollback (Some rollback_error),
         Println [S ''Rollback Error:'', E rollback_error]])
   \<and> Transact db_ok id (\<lambda>_. Returns (Some work_error)) []
     = (Some work_error, [Called DbBegin None, Called TxRollback None])
   \<and> Transact db_ok id (\<lambda>_. Returns None) []
     = (None, [Called DbBegin None, Called TxCommit None])
   \<and> Transact (db_failing TxCommit commit_error) id (\<lambda>_. Returns None) []
     = (Some commit_error, [Called DbBegin None, Called TxCommit (Some commit_error)])"
proof -
  have a: "(\<lambda>_. Returns (Some work_error)) (begun d []) = Returns (Some work_error)" for d :: db
    by simp
  have b: "(\<lambda>_. Returns None) (begun d []) = Returns None" for d :: db
    by simp
  note t1 = Transact_returning_work [of "\<lambda>_. Returns (Some work_error)"
      "db_failing TxRollback rollback_error" "[]" work_error id, THEN conjunct1, rule_format, OF a]
  note t2 = Transact_returning_work [of "\<lambda>_. Returns (Some work_error)"
      db_ok "[]" work_error id, THEN conjunct1, rule_format, OF a]
  note t3 = Transact_returning_work [of "\<lambda>_. Returns None"
      db_ok "[]" _ id, THEN conjunct2, THEN conjunct1, rule_format, OF b]
  note t4 = Transact_returning_work [of "\<lambda>_. Returns None"
      "db_failing TxCommit commit_error" "[]" _ id, THEN conjunct2, THEN conjunct1, rule_format, OF b]
  from t1 t2 t3 t4 show ?thesis by (simp add: tx_defs)
qed

text \<open>
  A panic that \<open>recover()\<close> reports. When the unit of work panics with an error value,
  \<open>Transact\<close> returns exactly that value; when it panics with another value, \<open>Transact\<close>
  returns an error whose text is the payload as \<open>%+v\<close> formats it. In both cases the
  error is logged, the stack is printed, and the transaction is rolled back and not
  committed.
\<close>

lemma Transact_recovered_panic:
  "(f (begun d h) = Panics (Some (ErrorPayload er)) \<longrightarrow>
      Transact d format f h
        = (Some er, begun d h @ [Println [E er], PrintStack,
                                 Called TxRollback (reply d (calls_of (begun d h)) TxRollback)]
                      @ rollback_log (reply d (calls_of (begun d h)) TxRollback)))
   \<and> (f (begun d h) = Panics (Some (OtherPayload v)) \<longrightarrow>
      Transact d format f h
        = (Some (ErrorString (format v)),
           begun d h @ [Println [E (ErrorString (format v))], PrintStack,
                        Called TxRollback (reply d (calls_of (begun d h)) TxRollback)]
             @ rollback_log (reply d (calls_of (begun d h)) TxRollback))
      \<and> Error (ErrorString (format v)) = format v)"
  using Transact_panics [of f d h "ErrorPayload er" format]
    Transact_panics [of f d h "OtherPayload v" format]
  by (simp add: Let_def)

lemma Transact_recovered_panic_example:
  "Transact db_ok id (\<lambda>_. Panics (Some (ErrorPayload panic_error))) []
     = (Some panic_error,
        [Called DbBegin None, Println [E panic_error], PrintStack, Called TxRollback None])
   \<and> Transact (db_failing TxRollback rollback_error) id (\<lambda>_. Panics (Some (OtherPayload ''boom''))) []
     = (Some (ErrorString ''boom''),
        [Called DbBegin None, Println [E (ErrorString ''boom'')], PrintStack,
         Called TxRollback (Some rollback_error),
         Println [S ''Rollback Error:'', E rollback_error]])"
  by (simp add: Transact_def invoke_def Let_def tx_defs)

text \<open>
  C2. The statement that every panic of the unit of work is logged with a stack trace
  and rolled back fails for a panic after which \<open>recover()\<close> is nil. Then the deferred
  function skips the conversion, the log line and the stack trace, finds \<open>err\<close> nil,
  and commits: \<open>Transact\<close> makes no rollback, calls the commit, and returns what the
  commit returned, which is nil when the commit succeeds.
\<close>

theorem Transact_nil_panic_commits:
  "f (begun d h) = Panics None \<longrightarrow>
     Transact d format f h
       = (reply d (calls_of (begun d h)) TxCommit,
          begun d h @ [Called TxCommit (reply d (calls_of (begun d h)) TxCommit)])"
  using Transact_nil_panic [of f d h format] by simp

text \<open>
  The unit of work \<open>func(tx *gorm.DB) error { panic(nil) }\<close> on a database that never
  fails: the transaction is committed and \<open>Transact\<close> returns nil.
\<close>

theorem Transact_nil_panic_commits_witness:
  "(\<lambda>_. Panics None :: string outcome) (begun db_ok []) = Panics None
   \<and> Transact db_ok id (\<lambda>_. Panics None :: string outcome) []
       = (None, [Called DbBegin None, Called TxCommit None])"
proof -
  have a: "(\<lambda>_. Panics None :: string outcome) (begun db_ok []) = Panics None"
    by simp
  from Transact_nil_panic_commits [of "\<lambda>_. Panics None :: string outcome" db_ok "[]" id,
      rule_format, OF a]
  show ?thesis by (simp add: tx_defs)
qed

section \<open>The update map\<close>

lemma foldl_upd_dom:
  "dom (foldl (\<lambda>r f. r(prefix @ DBName f \<mapsto> Interface f)) m fs)
     = dom m \<union> (\<lambda>f. prefix @ DBName f) ` set fs"
  by (induction fs arbitrary: m) auto

lemma foldl_upd_other:
  "k \<notin> (\<lambda>f. prefix @ DBName f) ` set fs \<Longrightarrow>
   foldl (\<lambda>r f. r(prefix @ DBName f \<mapsto> Interface f)) m fs k = m k"
  by (induction fs arbitrary: m) auto

lemma foldl_upd_value:
  "distinct (map DBName fs) \<Longrightarrow> f \<in> set fs \<Longrightarrow>
   foldl (\<lambda>r f. r(prefix @ DBName f \<mapsto> Interface f)) m fs (prefix @ DBName f) = Some (Interface f)"
proof (induction fs arbitrary: m)
  case Nil
  then show ?case by simp
next
  case (Cons g gs)
  show ?case
  proof (cases "f = g")
    case True
    from Cons.prems(1) have "prefix @ DBName g \<notin> (\<lambda>f. prefix @ DBName f) ` set gs"
      by auto
    then have "foldl (\<lambda>r f. r(prefix @ DBName f \<mapsto> Interface f))
                 (m(prefix @ DBName g \<mapsto> Interface g)) gs (prefix @ DBName g)
               = (m(prefix @ DBName g \<mapsto> Interface g)) (prefix @ DBName g)"
      by (rule foldl_upd_other)
    then show ?thesis using True by (simp add: fun_upd_same del: fun_upd_apply)
  next
    case False
    with Cons show ?thesis by simp
  qed
qed

lemma foldl_upd_map_of:
  "foldl (\<lambda>r f. r(prefix @ DBName f \<mapsto> Interface f)) m fs
     = m ++ map_of (rev (map (\<lambda>f. (prefix @ DBName f, Interface f)) fs))"
proof (induction fs arbitrary: m)
  case Nil
  then show ?case by simp
next
  case (Cons g gs)
  let ?rest = "map_of (rev (map (\<lambda>f. (prefix @ DBName f, Interface f)) gs))"
  have "m ++ map_of (rev (map (\<lambda>f. (prefix @ DBName f, Interface f)) (g # gs)))
          = m ++ (map_of [(prefix @ DBName g, Interface g)] ++ ?rest)"
    by (simp only: list.map rev.simps map_of_append)
  also have "\<dots> = (m ++ map_of [(prefix @ DBName g, Interface g)]) ++ ?rest"
    by (simp only: map_add_assoc)
  also have "m ++ map_of [(prefix @ DBName g, Interface g)] = m(prefix @ DBName g \<mapsto> Interface g)"
    by (simp del: fun_upd_apply)
  finally show ?case
    using Cons.IH [of "m(prefix @ DBName g \<mapsto> Interface g)"] by (simp del: fun_upd_apply)
qed

lemma prefixed_inj: "distinct (map DBName fs) \<Longrightarrow> distinct (map (\<lambda>f. prefix @ DBName f) fs)"
  by (induction fs) auto

text \<open>
  C8. For every struct value and prefix, the map \<open>ToUpdateColumnsMap\<close> returns is the
  list of the fields the schema layer lists, persisted or not, read as pairs of
  prefixed column name and current value, where a later field replaces an earlier one
  of the same column name. Its keys are exactly the prefixed column names of the listed
  fields, so it has one entry per column name. When the column names of the listed
  fields differ from one another, every listed field has its own entry, which holds the
  field's current value, and the map has as many entries as there are listed fields.
  With prefix \<open>new_\<close> and the listed fields \<open>id = 1\<close>, \<open>name = "x"\<close> the map is exactly
  \<open>{new_id: 1, new_name: "x"}\<close>.
\<close>

theorem ToUpdateColumnsMap_listed_fields:
  "ToUpdateColumnsMap Fields prefix structval
      = map_of (rev (map (\<lambda>f. (prefix @ DBName f, Interface f)) (Fields structval)))
   \<and> dom (ToUpdateColumnsMap Fields prefix structval)
      = (\<lambda>f. prefix @ DBName f) ` set (Fields structval)
   \<and> card (dom (ToUpdateColumnsMap Fields prefix structval))
      = card (DBName ` set (Fields structval))
   \<and> (distinct (map DBName (Fields structval)) \<longrightarrow>
        (\<forall>f \<in> set (Fields structval).
            ToUpdateColumnsMap Fields prefix structval (prefix @ DBName f) = Some (Interface f))
        \<and> card (dom (ToUpdateColumnsMap Fields prefix structval)) = length (Fields structval))
   \<and> ToUpdateColumnsMap (\<lambda>_. [id_field, name_field]) ''new_'' entity
      = [''new_id'' \<mapsto> Inl 1, ''new_name'' \<mapsto> Inr ''x'']"
proof (intro conjI impI ballI)
  show "ToUpdateColumnsMap Fields prefix structval
      = map_of (rev (map (\<lambda>f. (prefix @ DBName f, Interface f)) (Fields structval)))"
    by (simp add: ToUpdateColumnsMap_def foldl_upd_map_of)
next
  show "dom (ToUpdateColumnsMap Fields prefix structval)
      = (\<lambda>f. prefix @ DBName f) ` set (Fields structval)"
    by (simp add: ToUpdateColumnsMap_def foldl_upd_dom)
next
  have "dom (ToUpdateColumnsMap Fields prefix structval)
          = (\<lambda>n. prefix @ n) ` (DBName ` set (Fields structval))"
    by (simp add: ToUpdateColumnsMap_def foldl_upd_dom image_image)
  moreover have "inj_on (\<lambda>n. prefix @ n) (DBName ` set (Fields structval))"
    by (simp add: inj_on_def)
  ultimately show "card (dom (ToUpdateColumnsMap Fields prefix structval))
      = card (DBName ` set (Fields structval))"
    by (simp add: card_image)
next
  fix f assume "distinct (map DBName (Fields structval))" "f \<in> set (Fields structval)"
  then show "ToUpdateColumnsMap Fields prefix structval (prefix @ DBName f) = Some (Interface f)"
    by (simp add: ToUpdateColumnsMap_def foldl_upd_value)
next
  assume d: "distinct (map DBName (Fields structval))"
  have "card (dom (ToUpdateColumnsMap Fields prefix structval))
          = card (set (map (\<lambda>f. prefix @ DBName f) (Fields structval)))"
    by (simp add: ToUpdateColumnsMap_def foldl_upd_dom)
  also have "\<dots> = length (map (\<lambda>f. prefix @ DBName f) (Fields structval))"
    using prefixed_inj [OF d] by (rule distinct_card)
  finally show "card (dom (ToUpdateColumnsMap Fields prefix structval)) = length (Fields structval)"
    by simp
next
  show "ToUpdateColumnsMap (\<lambda>_. [id_field, name_field]) ''new_'' entity
      = [''new_id'' \<mapsto> Inl 1, ''new_name'' \<mapsto> Inr ''x'']"
    by (simp add: ToUpdateColumnsMap_def id_field_def name_field_def)
qed

text \<open>
  An entity whose listed fields are \<open>id\<close>, \<open>name\<close> and a field that is not persisted:
  the column names differ, and each of the three has its entry.
\<close>

theorem ToUpdateColumnsMap_listed_fields_witness:
  "distinct (map DBName [id_field, name_field, draft_field])
   \<and> dom (ToUpdateColumnsMap (\<lambda>_. [id_field, name_field, draft_field]) ''new_'' ())
       = {''new_id'', ''new_name'', ''new_draft''}
   \<and> ToUpdateColumnsMap (\<lambda>_. [id_field, name_field, draft_field]) ''new_'' () ''new_id''
       = Some (Inl 1)
   \<and> ToUpdateColumnsMap (\<lambda>_. [id_field, name_field, draft_field]) ''new_'' () ''new_name''
       = Some (Inr ''x'')
   \<and> ToUpdateColumnsMap (\<lambda>_. [id_field, name_field, draft_field]) ''new_'' () ''new_draft''
       = Some (Inr ''unsaved'')
   \<and> card (dom (ToUpdateColumnsMap (\<lambda>_. [id_field, name_field, draft_field]) ''new_'' ())) = 3"
proof -
  have d: "distinct (map DBName [id_field, name_field, draft_field])"
    by (simp add: id_field_def name_field_def draft_field_def)
  note t = ToUpdateColumnsMap_listed_fields [of "\<lambda>_. [id_field, name_field, draft_field]" "''new_''" "()" "()"]
  note v = t [THEN conjunct2, THEN conjunct2, THEN conjunct2, THEN conjunct1, rule_format, OF d]
  from v [THEN conjunct1] have e:
    "\<forall>f \<in> set [id_field, name_field, draft_field].
       ToUpdateColumnsMap (\<lambda>_. [id_field, name_field, draft_field]) ''new_'' () (''new_'' @ DBName f)
         = Some (Interface f)"
    by simp
  from e have e1: "ToUpdateColumnsMap (\<lambda>_. [id_field, name_field, draft_field]) ''new_'' () ''new_id''
       = Some (Inl 1)"
    by (simp add: id_field_def)
  from e have e2: "ToUpdateColumnsMap (\<lambda>_. [id_field, name_field, draft_field]) ''new_'' () ''new_name''
       = Some (Inr ''x'')"
    by (simp add: name_field_def)
  from e have e3: "ToUpdateColumnsMap (\<lambda>_. [id_field, name_field, draft_field]) ''new_'' () ''new_draft''
       = Some (Inr ''unsaved'')"
    by (simp add: draft_field_def)
  from t [THEN conjunct2, THEN conjunct1]
  have k: "dom (ToUpdateColumnsMap (\<lambda>_. [id_field, name_field, draft_field]) ''new_'' ())
       = {''new_id'', ''new_name'', ''new_draft''}"
    by (simp add: id_field_def name_field_def draft_field_def)
  from v [THEN conjunct2]
  have c: "card (dom (ToUpdateColumnsMap (\<lambda>_. [id_field, name_field, draft_field]) ''new_'' ())) = 3"
    by simp
  from d k e1 e2 e3 c show ?thesis by blast
qed

text \<open>
  It is not so that the map has exactly one entry per persisted field with that field's
  value. Two listed fields of the same column name share one entry, which holds the
  value of the later one, so the earlier field's value is not in the map; and a field
  the schema layer does not persist gets an entry like any other.
\<close>

theorem ToUpdateColumnsMap_counterexample:
  "length [id_field, shadowed_id_field] = 2
   \<and> ToUpdateColumnsMap (\<lambda>_. [id_field, shadowed_id_field]) ''new_'' () = [''new_id'' \<mapsto> Inl 2]
   \<and> card (dom (ToUpdateColumnsMap (\<lambda>_. [id_field, shadowed_id_field]) ''new_'' ())) = 1
   \<and> ToUpdateColumnsMap (\<lambda>_. [id_field, shadowed_id_field]) ''new_'' () (''new_'' @ DBName id_field)
       \<noteq> Some (Interface id_field)
   \<and> IsIgnored draft_field
   \<and> ToUpdateColumnsMap (\<lambda>_. [id_field, draft_field]) ''new_'' ()
       = [''new_id'' \<mapsto> Inl 1, ''new_draft'' \<mapsto> Inr ''unsaved'']"
  by (simp add: ToUpdateColumnsMap_def id_field_def shadowed_id_field_def draft_field_def)

end
